theory Spec2Isabelle
  imports Main "HOL-Library.Word" "HOL-Library.Sublist"
begin

unbundle bit_operations_syntax

section \<open>The NetworkTables 3 message codec of node-ntcore (protocol/v3/v3-messages.ts)\<close>

text \<open>
  A \<open>Buffer\<close> is a list of bytes, an offset is a natural number.  A JavaScript string is
  represented by the bytes of its UTF-8 encoding, a double by the 64 bits that
  \<open>ieee754.write(buf, x, 0, false, 52, 8)\<close> stores for it (big-endian), and every other
  JavaScript number the codec handles (ids, sequence numbers, counts, lengths) by a natural
  number.  A thrown exception is a value \<open>Inl e\<close>, a normal return is \<open>Inr x\<close>.
\<close>

type_synonym byte = "8 word"
type_synonym Buffer = "byte list"
type_synonym utf8 = "byte list"
type_synonym f64 = "64 word"

subsection \<open>Exceptions\<close>

text \<open>
  The exception classes the module throws.  \<open>InvalidBufferLengthError\<close> stands for what the
  helpers of protocol-utils throw on a short buffer (the spec's \<open>Truncated\<close>);
  \<open>RangeError\<close> is what the \<open>Buffer\<close> readers and writers of Node throw out of range,
  \<open>TypeError\<close> what JavaScript throws when a property of \<open>undefined\<close> is read.
  \<open>OutOfFuel\<close> is not an exception of the program: it marks a run of the model that was given
  too little recursion depth.
\<close>

datatype error =
    InvalidMessageTypeError
  | InvalidEntryValueError string
  | InvalidEntryTypeError string
  | InvalidBufferLengthError
  | Error string
  | RangeError
  | TypeError
  | OutOfFuel

subsection \<open>Buffer primitives of Node\<close>

text \<open>\<open>buf[i]\<close>: the byte at index \<open>i\<close>, \<open>undefined\<close> (here \<open>None\<close>) out of range.\<close>

definition byteAt :: "Buffer \<Rightarrow> nat \<Rightarrow> byte option" where
  "byteAt buf i = (if i < length buf then Some (buf ! i) else None)"

text \<open>\<open>buf.readUInt8(i)\<close>, \<open>buf.readUInt16BE(i)\<close>, \<open>buf.readUInt32BE(i)\<close> throw out of range.\<close>

definition readUInt8 :: "Buffer \<Rightarrow> nat \<Rightarrow> error + nat" where
  "readUInt8 buf i = (if i + 1 \<le> length buf then Inr (unat (buf ! i)) else Inl RangeError)"

definition readUInt16BE :: "Buffer \<Rightarrow> nat \<Rightarrow> error + nat" where
  "readUInt16BE buf i =
     (if i + 2 \<le> length buf
      then Inr (unat (buf ! i) * 256 + unat (buf ! (i + 1)))
      else Inl RangeError)"

definition readUInt32BE :: "Buffer \<Rightarrow> nat \<Rightarrow> error + nat" where
  "readUInt32BE buf i =
     (if i + 4 \<le> length buf
      then Inr (unat (buf ! i) * 16777216 + unat (buf ! (i + 1)) * 65536
                + unat (buf ! (i + 2)) * 256 + unat (buf ! (i + 3)))
      else Inl RangeError)"

text \<open>
  \<open>Buffer.alloc(2).writeUInt16BE(v)\<close>: the two bytes of \<open>v\<close>, most significant first;
  Node throws a \<open>RangeError\<close> when \<open>v\<close> exceeds 65535.
\<close>

definition writeUInt16BE :: "nat \<Rightarrow> error + Buffer" where
  "writeUInt16BE v =
     (if v < 65536 then Inr [of_nat (v div 256), of_nat (v mod 256)] else Inl RangeError)"

definition writeUInt32BE :: "nat \<Rightarrow> error + Buffer" where
  "writeUInt32BE v =
     (if v < 4294967296
      then Inr [of_nat (v div 16777216), of_nat (v div 65536 mod 256),
                of_nat (v div 256 mod 256), of_nat (v mod 256)]
      else Inl RangeError)"

text \<open>\<open>Buffer.from([n])\<close> stores \<open>n & 255\<close>: one byte, the number reduced modulo 256.\<close>

definition byteOfNumber :: "nat \<Rightarrow> byte" where
  "byteOfNumber n = of_nat n"

text \<open>
  \<open>ieee754.write(buf, x, 0, false, 52, 8)\<close> and \<open>ieee754.read(buf, offset, false, 52, 8)\<close>:
  the eight bytes of the bit pattern, most significant first.
\<close>

definition ieee754_write :: "f64 \<Rightarrow> Buffer" where
  "ieee754_write x = map (\<lambda>k. ucast (drop_bit (8 * k) x)) [7, 6, 5, 4, 3, 2, 1, 0]"

fun be_word :: "Buffer \<Rightarrow> f64" where
  "be_word [] = 0"
| "be_word (b # bs) = push_bit (8 * length bs) (ucast b) OR be_word bs"

definition ieee754_read :: "Buffer \<Rightarrow> nat \<Rightarrow> f64" where
  "ieee754_read buf offset = be_word (take 8 (drop offset buf))"

subsection \<open>The helpers of protocol-utils\<close>

text \<open>
  Modelled from the spec: protocol-utils.ts (\<open>checkBufferLength\<close>, \<open>toUnsignedLEB128\<close>,
  \<open>fromUnsignedLEB128\<close>, \<open>encodeLEB128String\<close>, \<open>decodeLEB128String\<close>) is not among the
  sources.  \<open>checkBufferLength buf offset n\<close> fails on a short buffer: fewer than \<open>n\<close>
  bytes from \<open>offset\<close> on.
\<close>

definition checkBufferLength :: "Buffer \<Rightarrow> nat \<Rightarrow> nat \<Rightarrow> error + unit" where
  "checkBufferLength buf offset n =
     (if length buf < offset + n then Inl InvalidBufferLengthError else Inr ())"

text \<open>
  Modelled from the spec: unsigned LEB128 encode.  7-bit groups, least significant first;
  every byte but the last has its high bit set; zero is the single byte 0.
\<close>

fun toUnsignedLEB128 :: "nat \<Rightarrow> Buffer" where
  "toUnsignedLEB128 n =
     (if n < 128 then [of_nat n]
      else of_nat (n mod 128 + 128) # toUnsignedLEB128 (n div 128))"

declare toUnsignedLEB128.simps [simp del]

text \<open>
  Modelled from the spec: unsigned LEB128 decode.  Bytes are consumed until one with the high
  bit clear, the low 7 bits of each accumulated; it fails when the buffer ends before that
  byte.  \<open>leb128_groups\<close> returns the value and the number of bytes consumed.
\<close>

fun leb128_groups :: "Buffer \<Rightarrow> (nat \<times> nat) option" where
  "leb128_groups [] = None"
| "leb128_groups (b # bs) =
     (if unat b < 128 then Some (unat b, 1)
      else (case leb128_groups bs of
              None \<Rightarrow> None
            | Some (v, k) \<Rightarrow> Some (unat b - 128 + 128 * v, Suc k)))"

definition fromUnsignedLEB128 :: "Buffer \<Rightarrow> nat \<Rightarrow> error + (nat \<times> nat)" where
  "fromUnsignedLEB128 buf offset =
     (case leb128_groups (drop offset buf) of
        None \<Rightarrow> Inl InvalidBufferLengthError
      | Some (v, k) \<Rightarrow> Inr (v, offset + k))"

text \<open>
  Modelled from the spec: the length-prefixed string, \<open>LEB128(byteLength) || bytes\<close>.
  Decoding reads the length and checks that the string fits in the buffer.
\<close>

definition encodeLEB128String :: "utf8 \<Rightarrow> Buffer" where
  "encodeLEB128String s = toUnsignedLEB128 (length s) @ s"

definition decodeLEB128String :: "Buffer \<Rightarrow> nat \<Rightarrow> error + (utf8 \<times> nat)" where
  "decodeLEB128String buf offset =
     (case fromUnsignedLEB128 buf offset of
        Inl e \<Rightarrow> Inl e
      | Inr (n, off) \<Rightarrow>
          (if length buf < off + n then Inl InvalidBufferLengthError
           else Inr (take n (drop off buf), off + n)))"

subsection \<open>The constants of v3-types\<close>

text \<open>
  Modelled from the spec: v3-types.ts is not among the sources.  The spec fixes the magic
  value and, in its scenarios, the bytes of CLIENT_HELLO, SERVER_HELLO_COMPLETE, SERVER_HELLO,
  CLIENT_HELLO_COMPLETE, ENTRY_ASSIGNMENT and BOOLEAN; the other bytes are those of the
  NetworkTables 3 wire format, which the spec requires to be kept.  An enum member is the
  number it stands for at run time.
\<close>

type_synonym V3MessageType = byte
type_synonym V3EntryType = byte

definition KEEP_ALIVE :: V3MessageType where "KEEP_ALIVE = 0x00"
definition CLIENT_HELLO :: V3MessageType where "CLIENT_HELLO = 0x01"
definition PROTO_VERSION_UNSUPPORTED :: V3MessageType where "PROTO_VERSION_UNSUPPORTED = 0x02"
definition SERVER_HELLO_COMPLETE :: V3MessageType where "SERVER_HELLO_COMPLETE = 0x03"
definition SERVER_HELLO :: V3MessageType where "SERVER_HELLO = 0x04"
definition CLIENT_HELLO_COMPLETE :: V3MessageType where "CLIENT_HELLO_COMPLETE = 0x05"
definition ENTRY_ASSIGNMENT :: V3MessageType where "ENTRY_ASSIGNMENT = 0x10"
definition ENTRY_UPDATE :: V3MessageType where "ENTRY_UPDATE = 0x11"
definition ENTRY_FLAGS_UPDATE :: V3MessageType where "ENTRY_FLAGS_UPDATE = 0x12"
definition ENTRY_DELETE :: V3MessageType where "ENTRY_DELETE = 0x13"
definition CLEAR_ALL_ENTRIES :: V3MessageType where "CLEAR_ALL_ENTRIES = 0x14"
definition RPC_EXECUTE :: V3MessageType where "RPC_EXECUTE = 0x20"
definition RPC_RESPONSE :: V3MessageType where "RPC_RESPONSE = 0x21"

definition BOOLEAN :: V3EntryType where "BOOLEAN = 0x00"
definition DOUBLE :: V3EntryType where "DOUBLE = 0x01"
definition STRING :: V3EntryType where "STRING = 0x02"
definition RAW :: V3EntryType where "RAW = 0x03"
definition BOOLEAN_ARRAY :: V3EntryType where "BOOLEAN_ARRAY = 0x10"
definition DOUBLE_ARRAY :: V3EntryType where "DOUBLE_ARRAY = 0x11"
definition STRING_ARRAY :: V3EntryType where "STRING_ARRAY = 0x12"
definition RPC :: V3EntryType where "RPC = 0x20"

text \<open>\<open>b in ByteToV3MessageType\<close> and \<open>b in ByteToV3EntryType\<close>; \<open>undefined\<close> is in neither.\<close>

definition inByteToV3MessageType :: "byte option \<Rightarrow> bool" where
  "inByteToV3MessageType x =
     (case x of None \<Rightarrow> False
      | Some b \<Rightarrow> b \<in> set [KEEP_ALIVE, CLIENT_HELLO, PROTO_VERSION_UNSUPPORTED,
          SERVER_HELLO_COMPLETE, SERVER_HELLO, CLIENT_HELLO_COMPLETE, ENTRY_ASSIGNMENT,
          ENTRY_UPDATE, ENTRY_FLAGS_UPDATE, ENTRY_DELETE, CLEAR_ALL_ENTRIES, RPC_EXECUTE,
          RPC_RESPONSE])"

definition inByteToV3EntryType :: "byte option \<Rightarrow> bool" where
  "inByteToV3EntryType x =
     (case x of None \<Rightarrow> False
      | Some b \<Rightarrow> b \<in> set [BOOLEAN, DOUBLE, STRING, RAW, BOOLEAN_ARRAY, DOUBLE_ARRAY,
          STRING_ARRAY, RPC])"

definition CLEAR_ALL_ENTRIES_MAGIC_VALUE :: nat where
  "CLEAR_ALL_ENTRIES_MAGIC_VALUE = 0xD06CB27A"

subsection \<open>Entry flags\<close>

record V3EntryFlags =
  persistent :: bool

definition entryFlagsToUInt8 :: "V3EntryFlags \<Rightarrow> byte" where
  "entryFlagsToUInt8 flags = (if persistent flags then 1 else 0)"

definition UInt8ToEntryFlags :: "byte \<Rightarrow> V3EntryFlags" where
  "UInt8ToEntryFlags flagByte = \<lparr> persistent = (flagByte AND 0x1 = 1) \<rparr>"

subsection \<open>Entry values and RPC definitions\<close>

datatype NTEntryValue = NTEntryValue
    (bool: "bool option") (double: "f64 option") (str: "utf8 option") (raw: "Buffer option")
    (bool_array: "bool list option") (double_array: "f64 list option")
    (str_array: "utf8 list option") (rpc: "V3RPCDefinition option")
and V3RPCDefinition = V3RPCDefinition
    (name: utf8) (parameters: "V3RPCParameter list") (results: "V3RPCResult list")
and V3RPCParameter = V3RPCParameter (p_type: V3EntryType) (p_name: utf8) (p_value: NTEntryValue)
and V3RPCResult = V3RPCResult (r_type: V3EntryType) (r_name: utf8) (r_value: NTEntryValue)

definition emptyValue :: NTEntryValue where
  "emptyValue = NTEntryValue None None None None None None None None"

definition checkEntryValue :: "V3EntryType \<Rightarrow> NTEntryValue \<Rightarrow> error + unit" where
  "checkEntryValue type valueObj =
     (if type = BOOLEAN \<and> bool valueObj = None
        then Inl (InvalidEntryValueError ''Expected boolean value'')
      else if type = DOUBLE \<and> double valueObj = None
        then Inl (InvalidEntryValueError ''Expected double value'')
      else if type = STRING \<and> str valueObj = None
        then Inl (InvalidEntryValueError ''Expected string value'')
      else if type = RAW \<and> raw valueObj = None
        then Inl (InvalidEntryValueError ''Expected raw value'')
      else if type = BOOLEAN_ARRAY \<and> bool_array valueObj = None
        then Inl (InvalidEntryValueError ''Expected boolean array value'')
      else if type = DOUBLE_ARRAY \<and> double_array valueObj = None
        then Inl (InvalidEntryValueError ''Expected double array value'')
      else if type = STRING_ARRAY \<and> str_array valueObj = None
        then Inl (InvalidEntryValueError ''Expected string array value'')
      else if type = RPC \<and> rpc valueObj = None
        then Inl (InvalidEntryValueError ''Expected RPC value'')
      else Inr ())"

text \<open>
  \<open>entryValueToBuffer\<close> and the encoders of an RPC definition.  An \<open>NTEntryValue\<close> is an
  object of optional fields, \<open>undefined\<close> being \<open>None\<close>.  After \<open>checkEntryValue\<close> the field
  of the type is present, so the \<open>None\<close> branches below are never taken.  For a type byte that
  is none of the eight, the \<open>switch\<close> of the source falls through and returns \<open>undefined\<close>,
  on which the \<open>Buffer.concat\<close> of every caller throws a \<open>TypeError\<close>; the exception is
  placed here.  The array counts and the length of an RPC definition are written with
  \<open>Buffer.from([n])\<close>, the length of a raw value with \<open>toUnsignedLEB128\<close>.
\<close>

definition encodeRPCResultSpec :: "V3RPCResult \<Rightarrow> Buffer" where
  "encodeRPCResultSpec result = [r_type result] @ encodeLEB128String (r_name result)"

fun entryValueToBuffer :: "V3EntryType \<Rightarrow> NTEntryValue \<Rightarrow> error + Buffer"
  and encodeRPCDefinition :: "V3RPCDefinition \<Rightarrow> error + Buffer"
  and encodeRPCParameterSpecs :: "V3RPCParameter list \<Rightarrow> error + Buffer list"
  and encodeRPCParameterSpec :: "V3RPCParameter \<Rightarrow> error + Buffer"
where
  "entryValueToBuffer type (NTEntryValue v_bool v_double v_str v_raw v_bool_array v_double_array
        v_str_array v_rpc) =
     (case checkEntryValue type (NTEntryValue v_bool v_double v_str v_raw v_bool_array
             v_double_array v_str_array v_rpc) of
        Inl e \<Rightarrow> Inl e
      | Inr _ \<Rightarrow>
          if type = BOOLEAN then
            (case v_bool of None \<Rightarrow> Inl TypeError
             | Some b \<Rightarrow> Inr [if b then 1 else 0])
          else if type = DOUBLE then
            (case v_double of None \<Rightarrow> Inl TypeError
             | Some d \<Rightarrow> Inr (ieee754_write d))
          else if type = STRING then
            (case v_str of None \<Rightarrow> Inl TypeError
             | Some s \<Rightarrow> Inr (encodeLEB128String s))
          else if type = RAW then
            (case v_raw of None \<Rightarrow> Inl TypeError
             | Some r \<Rightarrow> Inr (toUnsignedLEB128 (length r) @ r))
          else if type = BOOLEAN_ARRAY then
            (case v_bool_array of None \<Rightarrow> Inl TypeError
             | Some bs \<Rightarrow>
                 Inr ([byteOfNumber (length bs)] @ map (\<lambda>val. if val then 1 else 0) bs))
          else if type = DOUBLE_ARRAY then
            (case v_double_array of None \<Rightarrow> Inl TypeError
             | Some ds \<Rightarrow>
                 Inr ([byteOfNumber (length ds)] @ concat (map ieee754_write ds)))
          else if type = STRING_ARRAY then
            (case v_str_array of None \<Rightarrow> Inl TypeError
             | Some ss \<Rightarrow>
                 Inr ([byteOfNumber (length ss)] @ concat (map encodeLEB128String ss)))
          else if type = RPC then
            (case v_rpc of None \<Rightarrow> Inl TypeError
             | Some rpcDef \<Rightarrow>
                 (case encodeRPCDefinition rpcDef of
                    Inl e \<Rightarrow> Inl e
                  | Inr encodedRpcBuf \<Rightarrow>
                      Inr ([byteOfNumber (length encodedRpcBuf)] @ encodedRpcBuf)))
          else Inl TypeError)"
| "encodeRPCDefinition (V3RPCDefinition d_name d_parameters d_results) =
     (case encodeRPCParameterSpecs d_parameters of
        Inl e \<Rightarrow> Inl e
      | Inr paramBuffers \<Rightarrow>
          (let resultBuffers = map encodeRPCResultSpec d_results
           in Inr ([1] @ encodeLEB128String d_name
                   @ [byteOfNumber (length paramBuffers)] @ concat paramBuffers
                   @ [byteOfNumber (length resultBuffers)] @ concat resultBuffers)))"
| "encodeRPCParameterSpecs [] = Inr []"
| "encodeRPCParameterSpecs (param # params) =
     (case encodeRPCParameterSpec param of
        Inl e \<Rightarrow> Inl e
      | Inr b \<Rightarrow>
          (case encodeRPCParameterSpecs params of
             Inl e \<Rightarrow> Inl e
           | Inr bs \<Rightarrow> Inr (b # bs)))"
| "encodeRPCParameterSpec (V3RPCParameter type pname val) =
     (case entryValueToBuffer type val of
        Inl e \<Rightarrow> Inl e
      | Inr v \<Rightarrow> Inr ([type] @ encodeLEB128String pname @ v))"


text \<open>The loops of the array decoders.\<close>

fun boolArrayLoop :: "nat \<Rightarrow> Buffer \<Rightarrow> nat \<Rightarrow> bool list \<times> nat" where
  "boolArrayLoop 0 buf bufOffset = ([], bufOffset)"
| "boolArrayLoop (Suc n) buf bufOffset =
     (case boolArrayLoop n buf (bufOffset + 1) of
        (boolArray, off) \<Rightarrow> ((byteAt buf bufOffset = Some 1) # boolArray, off))"

fun doubleArrayLoop :: "nat \<Rightarrow> Buffer \<Rightarrow> nat \<Rightarrow> f64 list \<times> nat" where
  "doubleArrayLoop 0 buf bufOffset = ([], bufOffset)"
| "doubleArrayLoop (Suc n) buf bufOffset =
     (case doubleArrayLoop n buf (bufOffset + 8) of
        (doubleArray, off) \<Rightarrow> (ieee754_read buf bufOffset # doubleArray, off))"

fun strArrayLoop :: "nat \<Rightarrow> Buffer \<Rightarrow> nat \<Rightarrow> error + (utf8 list \<times> nat)" where
  "strArrayLoop 0 buf bufOffset = Inr ([], bufOffset)"
| "strArrayLoop (Suc n) buf bufOffset =
     (case decodeLEB128String buf bufOffset of
        Inl e \<Rightarrow> Inl e
      | Inr (strResult, off) \<Rightarrow>
          (case strArrayLoop n buf off of
             Inl e \<Rightarrow> Inl e
           | Inr (strArray, off') \<Rightarrow> Inr (strResult # strArray, off')))"

text \<open>
  The bound of \<open>for (let i = 0; i < n; i++)\<close> when \<open>n\<close> was read as \<open>buf[i]\<close>: the
  comparison with \<open>undefined\<close> is false, so the loop body never runs.
\<close>

definition loopBound :: "byte option \<Rightarrow> nat" where
  "loopBound x = (case x of None \<Rightarrow> 0 | Some b \<Rightarrow> unat b)"

definition decodeRPCResultSpec :: "Buffer \<Rightarrow> nat \<Rightarrow> error + (V3RPCResult \<times> nat)" where
  "decodeRPCResultSpec buf offset =
     (case decodeLEB128String buf (offset + 1) of
        Inl e \<Rightarrow> Inl e
      | Inr (resultName, off) \<Rightarrow>
          (case byteAt buf offset of
             None \<Rightarrow> Inl TypeError
           | Some type \<Rightarrow> Inr (V3RPCResult type resultName emptyValue, off)))"

fun decodeRPCResultSpecs :: "nat \<Rightarrow> Buffer \<Rightarrow> nat \<Rightarrow> error + (V3RPCResult list \<times> nat)" where
  "decodeRPCResultSpecs 0 buf bufOffset = Inr ([], bufOffset)"
| "decodeRPCResultSpecs (Suc n) buf bufOffset =
     (case decodeRPCResultSpec buf bufOffset of
        Inl e \<Rightarrow> Inl e
      | Inr (decodedResult, off) \<Rightarrow>
          (case decodeRPCResultSpecs n buf off of
             Inl e \<Rightarrow> Inl e
           | Inr (rs, off') \<Rightarrow> Inr (decodedResult # rs, off')))"

text \<open>
  \<open>entryValueFromBuffer\<close> and the decoders of an RPC definition.  A parameter spec of an RPC
  definition holds a default value, which may be an RPC definition again, so the source
  functions call each other; the first argument bounds the nesting of RPC definitions, and
  \<open>OutOfFuel\<close> is returned when the bound is reached.  For a type byte that is none of the
  eight, the \<open>switch\<close> returns \<open>undefined\<close> and the caller, reading its \<open>value\<close>, throws a
  \<open>TypeError\<close>.  \<open>decodeRPCDefinition\<close> reads the two counts as \<open>buf[i]\<close>, without a check.
  In a parameter spec and in a result spec the name is decoded at \<open>offset + 1\<close>, which throws
  when \<open>buf[offset]\<close> is \<open>undefined\<close>: the \<open>None\<close> branch for the type byte is never taken.
\<close>

function entryValueFromBuffer ::
      "nat \<Rightarrow> V3EntryType \<Rightarrow> Buffer \<Rightarrow> nat \<Rightarrow> error + (NTEntryValue \<times> nat)"
  and decodeRPCDefinition :: "nat \<Rightarrow> Buffer \<Rightarrow> nat \<Rightarrow> error + (V3RPCDefinition \<times> nat)"
  and decodeRPCParameterSpecs ::
      "nat \<Rightarrow> nat \<Rightarrow> Buffer \<Rightarrow> nat \<Rightarrow> error + (V3RPCParameter list \<times> nat)"
  and decodeRPCParameterSpec :: "nat \<Rightarrow> Buffer \<Rightarrow> nat \<Rightarrow> error + (V3RPCParameter \<times> nat)"
where
  "entryValueFromBuffer fuel type buf offset =
     (if type = BOOLEAN then
        (case checkBufferLength buf offset 1 of
           Inl e \<Rightarrow> Inl e
         | Inr _ \<Rightarrow>
             Inr (NTEntryValue (Some (byteAt buf offset = Some 1)) None None None None None None
                    None, offset + 1))
      else if type = DOUBLE then
        (case checkBufferLength buf offset 8 of
           Inl e \<Rightarrow> Inl e
         | Inr _ \<Rightarrow>
             Inr (NTEntryValue None (Some (ieee754_read buf offset)) None None None None None
                    None, offset + 8))
      else if type = STRING then
        (case decodeLEB128String buf offset of
           Inl e \<Rightarrow> Inl e
         | Inr (strResult, off) \<Rightarrow>
             Inr (NTEntryValue None None (Some strResult) None None None None None, off))
      else if type = RAW then
        (case fromUnsignedLEB128 buf offset of
           Inl e \<Rightarrow> Inl e
         | Inr (dataLen, off) \<Rightarrow>
             (case checkBufferLength buf off dataLen of
                Inl e \<Rightarrow> Inl e
              | Inr _ \<Rightarrow>
                  Inr (NTEntryValue None None None (Some (take dataLen (drop off buf))) None None
                         None None, off + dataLen)))
      else if type = BOOLEAN_ARRAY then
        (case readUInt8 buf offset of
           Inl e \<Rightarrow> Inl e
         | Inr numElems \<Rightarrow>
             (case checkBufferLength buf (offset + 1) numElems of
                Inl e \<Rightarrow> Inl e
              | Inr _ \<Rightarrow>
                  (case boolArrayLoop numElems buf (offset + 1) of
                     (boolArray, bufOffset) \<Rightarrow>
                       Inr (NTEntryValue None None None None (Some boolArray) None None None,
                            bufOffset))))
      else if type = DOUBLE_ARRAY then
        (case readUInt8 buf offset of
           Inl e \<Rightarrow> Inl e
         | Inr numElems \<Rightarrow>
             (case checkBufferLength buf (offset + 1) (numElems * 8) of
                Inl e \<Rightarrow> Inl e
              | Inr _ \<Rightarrow>
                  (case doubleArrayLoop numElems buf (offset + 1) of
                     (doubleArray, bufOffset) \<Rightarrow>
                       Inr (NTEntryValue None None None None None (Some doubleArray) None None,
                            bufOffset))))
      else if type = STRING_ARRAY then
        (case readUInt8 buf offset of
           Inl e \<Rightarrow> Inl e
         | Inr numElems \<Rightarrow>
             (case checkBufferLength buf (offset + 1) numElems of
                Inl e \<Rightarrow> Inl e
              | Inr _ \<Rightarrow>
                  (case strArrayLoop numElems buf (offset + 1) of
                     Inl e \<Rightarrow> Inl e
                   | Inr (strArray, bufOffset) \<Rightarrow>
                       Inr (NTEntryValue None None None None None None (Some strArray) None,
                            bufOffset))))
      else if type = RPC then
        (case fromUnsignedLEB128 buf offset of
           Inl e \<Rightarrow> Inl e
         | Inr (bufLen, off) \<Rightarrow>
             (case checkBufferLength buf off bufLen of
                Inl e \<Rightarrow> Inl e
              | Inr _ \<Rightarrow>
                  (case fuel of
                     0 \<Rightarrow> Inl OutOfFuel
                   | Suc fuel' \<Rightarrow>
                       (case decodeRPCDefinition fuel' buf off of
                          Inl e \<Rightarrow> Inl e
                        | Inr (rpcDefinition, newOffset) \<Rightarrow>
                            Inr (NTEntryValue None None None None None None None
                                   (Some rpcDefinition), newOffset)))))
      else Inl TypeError)"
| "decodeRPCDefinition fuel buf offset =
     (if byteAt buf offset \<noteq> Some 1 then Inl (Error ''Unsupported RPC Version'')
      else
        (case decodeLEB128String buf (offset + 1) of
           Inl e \<Rightarrow> Inl e
         | Inr (procedureName, off1) \<Rightarrow>
             (case decodeRPCParameterSpecs fuel (loopBound (byteAt buf off1)) buf (off1 + 1) of
                Inl e \<Rightarrow> Inl e
              | Inr (params, off2) \<Rightarrow>
                  (case decodeRPCResultSpecs (loopBound (byteAt buf off2)) buf (off2 + 1) of
                     Inl e \<Rightarrow> Inl e
                   | Inr (rs, off3) \<Rightarrow>
                       Inr (V3RPCDefinition procedureName params rs, off3)))))"
| "decodeRPCParameterSpecs fuel 0 buf bufOffset = Inr ([], bufOffset)"
| "decodeRPCParameterSpecs fuel (Suc n) buf bufOffset =
     (case decodeRPCParameterSpec fuel buf bufOffset of
        Inl e \<Rightarrow> Inl e
      | Inr (decodedParam, off) \<Rightarrow>
          (case decodeRPCParameterSpecs fuel n buf off of
             Inl e \<Rightarrow> Inl e
           | Inr (ps, off') \<Rightarrow> Inr (decodedParam # ps, off')))"
| "decodeRPCParameterSpec fuel buf offset =
     (case decodeLEB128String buf (offset + 1) of
        Inl e \<Rightarrow> Inl e
      | Inr (paramName, off) \<Rightarrow>
          (case byteAt buf offset of
             None \<Rightarrow> Inl TypeError
           | Some type \<Rightarrow>
               (case entryValueFromBuffer fuel type buf off of
                  Inl e \<Rightarrow> Inl e
                | Inr (defaultValue, off') \<Rightarrow>
                    Inr (V3RPCParameter type paramName defaultValue, off'))))"
  by pat_completeness auto
termination
  by (relation "inv_image (less_than <*lex*> less_than <*lex*> less_than)
        (\<lambda>x. case x of
           Inl (Inl (fuel, type, buf, offset)) \<Rightarrow> (fuel, 0, 0)
         | Inl (Inr (fuel, buf, offset)) \<Rightarrow> (fuel, 3, 0)
         | Inr (Inl (fuel, n, buf, offset)) \<Rightarrow> (fuel, 2, n)
         | Inr (Inr (fuel, buf, offset)) \<Rightarrow> (fuel, 1, 0))") auto

subsection \<open>Messages\<close>

text \<open>
  The message interfaces, one constructor for each; the \<open>type\<close> field of a message is
  given by its constructor.  The fields are, in this order: \<open>protocolMajor\<close>,
  \<open>protocolMinor\<close>, \<open>clientIdent\<close>; \<open>serverSupportedProtocolMajor\<close>,
  \<open>serverSupportedProtocolMinor\<close>; \<open>clientPreviouslySeen\<close>, \<open>serverIdentity\<close>;
  \<open>entryName\<close>, \<open>entryType\<close>, \<open>entryId\<close>, \<open>entrySeq\<close>, \<open>entryFlags\<close>,
  \<open>entryValue\<close>; \<open>entryType\<close>, \<open>entryId\<close>, \<open>entrySeq\<close>, \<open>entryValue\<close>;
  \<open>entryId\<close>, \<open>entryFlags\<close>; \<open>entryId\<close>; \<open>rpcDefinitionId\<close>, \<open>uniqueId\<close>,
  \<open>parameters\<close>; \<open>rpcDefinitionId\<close>, \<open>uniqueId\<close>, \<open>results\<close>.
\<close>

datatype V3Message =
    V3KeepAliveMessage
  | V3ClientHelloMessage nat nat utf8
  | V3ProtoVersionUnsupportedMessage nat nat
  | V3ServerHelloCompleteMessage
  | V3ServerHelloMessage bool utf8
  | V3ClientHelloCompleteMessage
  | V3EntryAssignmentMessage utf8 V3EntryType nat nat V3EntryFlags NTEntryValue
  | V3EntryUpdateMessage V3EntryType nat nat NTEntryValue
  | V3EntryFlagsUpdateMessage nat V3EntryFlags
  | V3EntryDeleteMessage nat
  | V3ClearAllEntriesMessage
  | V3RPCExecuteMessage nat nat "V3RPCParameter list"
  | V3RPCResponseMessage nat nat "V3RPCResult list"

type_synonym V3MessageWrapper = "V3Message \<times> nat"

definition checkMessageType :: "Buffer \<Rightarrow> nat \<Rightarrow> V3MessageType \<Rightarrow> error + unit" where
  "checkMessageType buf offset expectedType =
     (if byteAt buf offset \<noteq> Some expectedType then Inl InvalidMessageTypeError else Inr ())"

text \<open>\<open>x & 0x1\<close> for \<open>x = buf[i]\<close>: \<open>undefined & 0x1\<close> is 0.\<close>

definition numberOfByte :: "byte option \<Rightarrow> byte" where
  "numberOfByte x = (case x of None \<Rightarrow> 0 | Some b \<Rightarrow> b)"

subsubsection \<open>Encoders\<close>

definition keepAliveMessageToBuffer :: Buffer where
  "keepAliveMessageToBuffer = [KEEP_ALIVE]"

definition clientHelloMessageToBuffer :: "nat \<Rightarrow> nat \<Rightarrow> utf8 \<Rightarrow> Buffer" where
  "clientHelloMessageToBuffer protocolMajor protocolMinor clientIdent =
     [CLIENT_HELLO, 3, 0] @ encodeLEB128String clientIdent"

definition protoVersionUnsupportedMessageToBuffer :: "nat \<Rightarrow> nat \<Rightarrow> Buffer" where
  "protoVersionUnsupportedMessageToBuffer serverSupportedProtocolMajor
       serverSupportedProtocolMinor =
     [PROTO_VERSION_UNSUPPORTED]
     @ [byteOfNumber serverSupportedProtocolMajor, byteOfNumber serverSupportedProtocolMinor]"

definition serverHelloCompleteMessageToBuffer :: Buffer where
  "serverHelloCompleteMessageToBuffer = [SERVER_HELLO_COMPLETE]"

definition serverHelloMessageToBuffer :: "bool \<Rightarrow> utf8 \<Rightarrow> Buffer" where
  "serverHelloMessageToBuffer clientPreviouslySeen serverIdentity =
     [SERVER_HELLO, if clientPreviouslySeen then 1 else 0] @ encodeLEB128String serverIdentity"

definition clientHelloCompleteMessageToBuffer :: Buffer where
  "clientHelloCompleteMessageToBuffer = [CLIENT_HELLO_COMPLETE]"

definition entryAssignmentMessageToBuffer ::
    "utf8 \<Rightarrow> V3EntryType \<Rightarrow> nat \<Rightarrow> nat \<Rightarrow> V3EntryFlags \<Rightarrow> NTEntryValue \<Rightarrow> error + Buffer" where
  "entryAssignmentMessageToBuffer entryName entryType entryId entrySeq entryFlags entryValue =
     (case checkEntryValue entryType entryValue of
        Inl e \<Rightarrow> Inl e
      | Inr _ \<Rightarrow>
          (let nameBuf = encodeLEB128String entryName in
           case writeUInt16BE entryId of
             Inl e \<Rightarrow> Inl e
           | Inr idBuf \<Rightarrow>
               (case writeUInt16BE entrySeq of
                  Inl e \<Rightarrow> Inl e
                | Inr seqBuf \<Rightarrow>
                    (case entryValueToBuffer entryType entryValue of
                       Inl e \<Rightarrow> Inl e
                     | Inr valueBuf \<Rightarrow>
                         Inr ([ENTRY_ASSIGNMENT] @ nameBuf @ [entryType] @ idBuf @ seqBuf
                              @ [entryFlagsToUInt8 entryFlags] @ valueBuf)))))"

definition entryUpdateMessageToBuffer ::
    "V3EntryType \<Rightarrow> nat \<Rightarrow> nat \<Rightarrow> NTEntryValue \<Rightarrow> error + Buffer" where
  "entryUpdateMessageToBuffer entryType entryId entrySeq entryValue =
     (case checkEntryValue entryType entryValue of
        Inl e \<Rightarrow> Inl e
      | Inr _ \<Rightarrow>
          (case writeUInt16BE entryId of
             Inl e \<Rightarrow> Inl e
           | Inr idBuf \<Rightarrow>
               (case writeUInt16BE entrySeq of
                  Inl e \<Rightarrow> Inl e
                | Inr seqBuf \<Rightarrow>
                    (case entryValueToBuffer entryType entryValue of
                       Inl e \<Rightarrow> Inl e
                     | Inr valueBuf \<Rightarrow>
                         Inr ([ENTRY_UPDATE] @ idBuf @ seqBuf @ [entryType] @ valueBuf)))))"

definition entryFlagsUpdateMessageToBuffer :: "nat \<Rightarrow> V3EntryFlags \<Rightarrow> error + Buffer" where
  "entryFlagsUpdateMessageToBuffer entryId entryFlags =
     (case writeUInt16BE entryId of
        Inl e \<Rightarrow> Inl e
      | Inr idBuf \<Rightarrow> Inr ([ENTRY_FLAGS_UPDATE] @ idBuf @ [entryFlagsToUInt8 entryFlags]))"

definition entryDeleteMessageToBuffer :: "nat \<Rightarrow> error + Buffer" where
  "entryDeleteMessageToBuffer entryId =
     (case writeUInt16BE entryId of
        Inl e \<Rightarrow> Inl e
      | Inr idBuf \<Rightarrow> Inr ([ENTRY_DELETE] @ idBuf))"

definition clearAllEntriesMessageToBuffer :: "error + Buffer" where
  "clearAllEntriesMessageToBuffer =
     (case writeUInt32BE CLEAR_ALL_ENTRIES_MAGIC_VALUE of
        Inl e \<Rightarrow> Inl e
      | Inr magicBuf \<Rightarrow> Inr ([CLEAR_ALL_ENTRIES] @ magicBuf))"

text \<open>\<open>msg.parameters.map(param => entryValueToBuffer(param.type, param.value))\<close> and the same
  for \<open>msg.results\<close>: the first exception ends the \<open>map\<close>.\<close>

fun parametersToBuffers :: "V3RPCParameter list \<Rightarrow> error + Buffer list" where
  "parametersToBuffers [] = Inr []"
| "parametersToBuffers (param # params) =
     (case entryValueToBuffer (p_type param) (p_value param) of
        Inl e \<Rightarrow> Inl e
      | Inr b \<Rightarrow>
          (case parametersToBuffers params of
             Inl e \<Rightarrow> Inl e
           | Inr bs \<Rightarrow> Inr (b # bs)))"

fun resultsToBuffers :: "V3RPCResult list \<Rightarrow> error + Buffer list" where
  "resultsToBuffers [] = Inr []"
| "resultsToBuffers (result # rs) =
     (case entryValueToBuffer (r_type result) (r_value result) of
        Inl e \<Rightarrow> Inl e
      | Inr b \<Rightarrow>
          (case resultsToBuffers rs of
             Inl e \<Rightarrow> Inl e
           | Inr bs \<Rightarrow> Inr (b # bs)))"

definition rpcExecuteMessageToBuffer ::
    "nat \<Rightarrow> nat \<Rightarrow> V3RPCParameter list \<Rightarrow> error + Buffer" where
  "rpcExecuteMessageToBuffer rpcDefinitionId uniqueId params =
     (case writeUInt16BE rpcDefinitionId of
        Inl e \<Rightarrow> Inl e
      | Inr defIdBuf \<Rightarrow>
          (let headerBuf = [RPC_EXECUTE] @ defIdBuf in
           case writeUInt16BE uniqueId of
             Inl e \<Rightarrow> Inl e
           | Inr idBuf \<Rightarrow>
               (let numParamsBuf = toUnsignedLEB128 (length params) in
                case parametersToBuffers params of
                  Inl e \<Rightarrow> Inl e
                | Inr paramBufs \<Rightarrow>
                    Inr (headerBuf @ idBuf @ numParamsBuf @ concat paramBufs))))"

definition rpcResponseMessageToBuffer ::
    "nat \<Rightarrow> nat \<Rightarrow> V3RPCResult list \<Rightarrow> error + Buffer" where
  "rpcResponseMessageToBuffer rpcDefinitionId uniqueId rs =
     (case writeUInt16BE rpcDefinitionId of
        Inl e \<Rightarrow> Inl e
      | Inr defIdBuf \<Rightarrow>
          (let headerBuf = [RPC_RESPONSE] @ defIdBuf in
           case writeUInt16BE uniqueId of
             Inl e \<Rightarrow> Inl e
           | Inr idBuf \<Rightarrow>
               (let numResultsBuf = toUnsignedLEB128 (length rs) in
                case resultsToBuffers rs of
                  Inl e \<Rightarrow> Inl e
                | Inr resultBufs \<Rightarrow>
                    Inr (headerBuf @ idBuf @ numResultsBuf @ concat resultBufs))))"

text \<open>Each message variant with its own encoder.\<close>

fun messageToBuffer :: "V3Message \<Rightarrow> error + Buffer" where
  "messageToBuffer V3KeepAliveMessage = Inr keepAliveMessageToBuffer"
| "messageToBuffer (V3ClientHelloMessage protocolMajor protocolMinor clientIdent) =
     Inr (clientHelloMessageToBuffer protocolMajor protocolMinor clientIdent)"
| "messageToBuffer (V3ProtoVersionUnsupportedMessage major minor) =
     Inr (protoVersionUnsupportedMessageToBuffer major minor)"
| "messageToBuffer V3ServerHelloCompleteMessage = Inr serverHelloCompleteMessageToBuffer"
| "messageToBuffer (V3ServerHelloMessage clientPreviouslySeen serverIdentity) =
     Inr (serverHelloMessageToBuffer clientPreviouslySeen serverIdentity)"
| "messageToBuffer V3ClientHelloCompleteMessage = Inr clientHelloCompleteMessageToBuffer"
| "messageToBuffer (V3EntryAssignmentMessage entryName entryType entryId entrySeq entryFlags
       entryValue) =
     entryAssignmentMessageToBuffer entryName entryType entryId entrySeq entryFlags entryValue"
| "messageToBuffer (V3EntryUpdateMessage entryType entryId entrySeq entryValue) =
     entryUpdateMessageToBuffer entryType entryId entrySeq entryValue"
| "messageToBuffer (V3EntryFlagsUpdateMessage entryId entryFlags) =
     entryFlagsUpdateMessageToBuffer entryId entryFlags"
| "messageToBuffer (V3EntryDeleteMessage entryId) = entryDeleteMessageToBuffer entryId"
| "messageToBuffer V3ClearAllEntriesMessage = clearAllEntriesMessageToBuffer"
| "messageToBuffer (V3RPCExecuteMessage rpcDefinitionId uniqueId params) =
     rpcExecuteMessageToBuffer rpcDefinitionId uniqueId params"
| "messageToBuffer (V3RPCResponseMessage rpcDefinitionId uniqueId rs) =
     rpcResponseMessageToBuffer rpcDefinitionId uniqueId rs"

subsubsection \<open>Decoders\<close>

definition keepAliveMessageFromBuffer :: "Buffer \<Rightarrow> nat \<Rightarrow> error + V3MessageWrapper" where
  "keepAliveMessageFromBuffer buf offset =
     (case checkBufferLength buf offset 1 of
        Inl e \<Rightarrow> Inl e
      | Inr _ \<Rightarrow>
          (case checkMessageType buf offset KEEP_ALIVE of
             Inl e \<Rightarrow> Inl e
           | Inr _ \<Rightarrow> Inr (V3KeepAliveMessage, offset + 1)))"

definition clientHelloMessageFromBuffer :: "Buffer \<Rightarrow> nat \<Rightarrow> error + V3MessageWrapper" where
  "clientHelloMessageFromBuffer buf offset =
     (case checkBufferLength buf offset 4 of
        Inl e \<Rightarrow> Inl e
      | Inr _ \<Rightarrow>
          (case checkMessageType buf offset CLIENT_HELLO of
             Inl e \<Rightarrow> Inl e
           | Inr _ \<Rightarrow>
               (case readUInt8 buf (offset + 1) of
                  Inl e \<Rightarrow> Inl e
                | Inr protocolMajor \<Rightarrow>
                    (case readUInt8 buf (offset + 2) of
                       Inl e \<Rightarrow> Inl e
                     | Inr protocolMinor \<Rightarrow>
                         (case decodeLEB128String buf (offset + 3) of
                            Inl e \<Rightarrow> Inl e
                          | Inr (clientIdent, off) \<Rightarrow>
                              Inr (V3ClientHelloMessage protocolMajor protocolMinor clientIdent,
                                   off))))))"

definition protoVersionUnsupportedMessageFromBuffer ::
    "Buffer \<Rightarrow> nat \<Rightarrow> error + V3MessageWrapper" where
  "protoVersionUnsupportedMessageFromBuffer buf offset =
     (case checkBufferLength buf offset 3 of
        Inl e \<Rightarrow> Inl e
      | Inr _ \<Rightarrow>
          (case checkMessageType buf offset PROTO_VERSION_UNSUPPORTED of
             Inl e \<Rightarrow> Inl e
           | Inr _ \<Rightarrow>
               (case readUInt8 buf (offset + 1) of
                  Inl e \<Rightarrow> Inl e
                | Inr serverSupportedProtocolMajor \<Rightarrow>
                    (case readUInt8 buf (offset + 2) of
                       Inl e \<Rightarrow> Inl e
                     | Inr serverSupportedProtocolMinor \<Rightarrow>
                         Inr (V3ProtoVersionUnsupportedMessage serverSupportedProtocolMajor
                                serverSupportedProtocolMinor, offset + 3)))))"

definition serverHelloCompleteMessageFromBuffer ::
    "Buffer \<Rightarrow> nat \<Rightarrow> error + V3MessageWrapper" where
  "serverHelloCompleteMessageFromBuffer buf offset =
     (case checkBufferLength buf offset 1 of
        Inl e \<Rightarrow> Inl e
      | Inr _ \<Rightarrow>
          (case checkMessageType buf offset SERVER_HELLO_COMPLETE of
             Inl e \<Rightarrow> Inl e
           | Inr _ \<Rightarrow> Inr (V3ServerHelloCompleteMessage, offset + 1)))"

definition serverHelloMessageFromBuffer :: "Buffer \<Rightarrow> nat \<Rightarrow> error + V3MessageWrapper" where
  "serverHelloMessageFromBuffer buf offset =
     (case checkBufferLength buf offset 3 of
        Inl e \<Rightarrow> Inl e
      | Inr _ \<Rightarrow>
          (case checkMessageType buf offset SERVER_HELLO of
             Inl e \<Rightarrow> Inl e
           | Inr _ \<Rightarrow>
               (let flags = byteAt buf (offset + 1) in
                case decodeLEB128String buf (offset + 2) of
                  Inl e \<Rightarrow> Inl e
                | Inr (serverIdentity, off) \<Rightarrow>
                    Inr (V3ServerHelloMessage (numberOfByte flags AND 0x1 = 1) serverIdentity,
                         off))))"

definition clientHelloCompleteMessageFromBuffer ::
    "Buffer \<Rightarrow> nat \<Rightarrow> error + V3MessageWrapper" where
  "clientHelloCompleteMessageFromBuffer buf offset =
     (case checkBufferLength buf offset 1 of
        Inl e \<Rightarrow> Inl e
      | Inr _ \<Rightarrow>
          (case checkMessageType buf offset CLIENT_HELLO_COMPLETE of
             Inl e \<Rightarrow> Inl e
           | Inr _ \<Rightarrow> Inr (V3ClientHelloCompleteMessage, offset + 1)))"

definition entryAssignmentMessageFromBuffer ::
    "nat \<Rightarrow> Buffer \<Rightarrow> nat \<Rightarrow> error + V3MessageWrapper" where
  "entryAssignmentMessageFromBuffer fuel buf offset =
     (case checkBufferLength buf offset 9 of
        Inl e \<Rightarrow> Inl e
      | Inr _ \<Rightarrow>
          (case checkMessageType buf offset ENTRY_ASSIGNMENT of
             Inl e \<Rightarrow> Inl e
           | Inr _ \<Rightarrow>
               (case decodeLEB128String buf (offset + 1) of
                  Inl e \<Rightarrow> Inl e
                | Inr (entryName, bufOffset) \<Rightarrow>
                    (if \<not> inByteToV3EntryType (byteAt buf bufOffset)
                     then Inl (InvalidEntryTypeError ''Invalid Type Found'')
                     else
                       (let entryType = numberOfByte (byteAt buf bufOffset) in
                        case readUInt16BE buf (bufOffset + 1) of
                          Inl e \<Rightarrow> Inl e
                        | Inr entryId \<Rightarrow>
                            (case readUInt16BE buf (bufOffset + 3) of
                               Inl e \<Rightarrow> Inl e
                             | Inr entrySeq \<Rightarrow>
                                 (let entryFlags =
                                        UInt8ToEntryFlags (numberOfByte (byteAt buf (bufOffset + 5)))
                                  in
                                  case entryValueFromBuffer fuel entryType buf (bufOffset + 6) of
                                    Inl e \<Rightarrow> Inl e
                                  | Inr (entryValue, newOffset) \<Rightarrow>
                                      Inr (V3EntryAssignmentMessage entryName entryType entryId
                                             entrySeq entryFlags entryValue, newOffset))))))))"

definition entryUpdateMessageFromBuffer ::
    "nat \<Rightarrow> Buffer \<Rightarrow> nat \<Rightarrow> error + V3MessageWrapper" where
  "entryUpdateMessageFromBuffer fuel buf offset =
     (case checkBufferLength buf offset 7 of
        Inl e \<Rightarrow> Inl e
      | Inr _ \<Rightarrow>
          (case checkMessageType buf offset ENTRY_UPDATE of
             Inl e \<Rightarrow> Inl e
           | Inr _ \<Rightarrow>
               (case readUInt16BE buf (offset + 1) of
                  Inl e \<Rightarrow> Inl e
                | Inr entryId \<Rightarrow>
                    (case readUInt16BE buf (offset + 3) of
                       Inl e \<Rightarrow> Inl e
                     | Inr entrySeq \<Rightarrow>
                         (if \<not> inByteToV3EntryType (byteAt buf (offset + 5))
                          then Inl (InvalidEntryTypeError ''Invalid Type Found'')
                          else
                            (let entryType = numberOfByte (byteAt buf (offset + 5)) in
                             case entryValueFromBuffer fuel entryType buf (offset + 6) of
                               Inl e \<Rightarrow> Inl e
                             | Inr (entryValue, newOffset) \<Rightarrow>
                                 Inr (V3EntryUpdateMessage entryType entryId entrySeq entryValue,
                                      newOffset)))))))"

definition entryFlagsUpdateMessageFromBuffer ::
    "Buffer \<Rightarrow> nat \<Rightarrow> error + V3MessageWrapper" where
  "entryFlagsUpdateMessageFromBuffer buf offset =
     (case checkBufferLength buf offset 4 of
        Inl e \<Rightarrow> Inl e
      | Inr _ \<Rightarrow>
          (case checkMessageType buf offset ENTRY_FLAGS_UPDATE of
             Inl e \<Rightarrow> Inl e
           | Inr _ \<Rightarrow>
               (case readUInt16BE buf (offset + 1) of
                  Inl e \<Rightarrow> Inl e
                | Inr entryId \<Rightarrow>
                    (let entryFlags = UInt8ToEntryFlags (numberOfByte (byteAt buf (offset + 3)))
                     in Inr (V3EntryFlagsUpdateMessage entryId entryFlags, offset + 4)))))"

definition entryDeleteMessageFromBuffer :: "Buffer \<Rightarrow> nat \<Rightarrow> error + V3MessageWrapper" where
  "entryDeleteMessageFromBuffer buf offset =
     (case checkBufferLength buf offset 3 of
        Inl e \<Rightarrow> Inl e
      | Inr _ \<Rightarrow>
          (case checkMessageType buf offset ENTRY_DELETE of
             Inl e \<Rightarrow> Inl e
           | Inr _ \<Rightarrow>
               (case readUInt16BE buf 1 of
                  Inl e \<Rightarrow> Inl e
                | Inr entryId \<Rightarrow> Inr (V3EntryDeleteMessage entryId, offset + 3))))"

definition clearAllEntriesMessageFromBuffer :: "Buffer \<Rightarrow> nat \<Rightarrow> error + V3MessageWrapper" where
  "clearAllEntriesMessageFromBuffer buf offset =
     (case checkBufferLength buf offset 5 of
        Inl e \<Rightarrow> Inl e
      | Inr _ \<Rightarrow>
          (case checkMessageType buf offset CLEAR_ALL_ENTRIES of
             Inl e \<Rightarrow> Inl e
           | Inr _ \<Rightarrow>
               (case readUInt32BE buf 1 of
                  Inl e \<Rightarrow> Inl e
                | Inr magic \<Rightarrow>
                    (if magic \<noteq> CLEAR_ALL_ENTRIES_MAGIC_VALUE
                     then Inl (InvalidEntryValueError
                                 ''Invalid Magic number for CLEAR ALL ENTRIES'')
                     else Inr (V3ClearAllEntriesMessage, offset + 5)))))"

text \<open>
  The loops of the two RPC decoders: the \<open>i\<close>-th value is decoded at the type of the
  \<open>i\<close>-th parameter (result) of the definition, from which its type and name are copied.
  The loops run over the specs of the definition: their bound is the decoded count, which
  at that point equals the number of specs.
\<close>

fun rpcParametersLoop ::
    "nat \<Rightarrow> V3RPCParameter list \<Rightarrow> Buffer \<Rightarrow> nat \<Rightarrow> error + (V3RPCParameter list \<times> nat)" where
  "rpcParametersLoop fuel [] buf bufOffset = Inr ([], bufOffset)"
| "rpcParametersLoop fuel (paramDef # paramDefs) buf bufOffset =
     (case entryValueFromBuffer fuel (p_type paramDef) buf bufOffset of
        Inl e \<Rightarrow> Inl e
      | Inr (val, off) \<Rightarrow>
          (case rpcParametersLoop fuel paramDefs buf off of
             Inl e \<Rightarrow> Inl e
           | Inr (params, off') \<Rightarrow>
               Inr (V3RPCParameter (p_type paramDef) (p_name paramDef) val # params, off')))"

fun rpcResultsLoop ::
    "nat \<Rightarrow> V3RPCResult list \<Rightarrow> Buffer \<Rightarrow> nat \<Rightarrow> error + (V3RPCResult list \<times> nat)" where
  "rpcResultsLoop fuel [] buf bufOffset = Inr ([], bufOffset)"
| "rpcResultsLoop fuel (resultDef # resultDefs) buf bufOffset =
     (case entryValueFromBuffer fuel (r_type resultDef) buf bufOffset of
        Inl e \<Rightarrow> Inl e
      | Inr (val, off) \<Rightarrow>
          (case rpcResultsLoop fuel resultDefs buf off of
             Inl e \<Rightarrow> Inl e
           | Inr (rs, off') \<Rightarrow>
               Inr (V3RPCResult (r_type resultDef) (r_name resultDef) val # rs, off')))"

definition rpcExecuteMessageFromBuffer ::
    "nat \<Rightarrow> (nat \<rightharpoonup> V3RPCDefinition) \<Rightarrow> Buffer \<Rightarrow> nat \<Rightarrow> error + V3MessageWrapper" where
  "rpcExecuteMessageFromBuffer fuel rpcDefinitions buf offset =
     (case checkBufferLength buf offset 6 of
        Inl e \<Rightarrow> Inl e
      | Inr _ \<Rightarrow>
          (case checkMessageType buf offset RPC_EXECUTE of
             Inl e \<Rightarrow> Inl e
           | Inr _ \<Rightarrow>
               (case readUInt16BE buf (offset + 1) of
                  Inl e \<Rightarrow> Inl e
                | Inr rpcDefinitionId \<Rightarrow>
                    (case rpcDefinitions rpcDefinitionId of
                       None \<Rightarrow> Inl (Error ''No RPC definition found'')
                     | Some rpcDefinition \<Rightarrow>
                         (case readUInt16BE buf (offset + 3) of
                            Inl e \<Rightarrow> Inl e
                          | Inr uniqueId \<Rightarrow>
                              (case fromUnsignedLEB128 buf (offset + 5) of
                                 Inl e \<Rightarrow> Inl e
                               | Inr (numParams, off) \<Rightarrow>
                                   (if numParams \<noteq> length (parameters rpcDefinition)
                                    then Inl (Error ''Mismatch in RPC parameter counts'')
                                    else
                                      (case rpcParametersLoop fuel (parameters rpcDefinition)
                                              buf off of
                                         Inl e \<Rightarrow> Inl e
                                       | Inr (params, bufOffset) \<Rightarrow>
                                           Inr (V3RPCExecuteMessage rpcDefinitionId uniqueId
                                                  params, bufOffset)))))))))"

definition rpcResponseMessageFromBuffer ::
    "nat \<Rightarrow> (nat \<rightharpoonup> V3RPCDefinition) \<Rightarrow> Buffer \<Rightarrow> nat \<Rightarrow> error + V3MessageWrapper" where
  "rpcResponseMessageFromBuffer fuel rpcDefinitions buf offset =
     (case checkBufferLength buf offset 6 of
        Inl e \<Rightarrow> Inl e
      | Inr _ \<Rightarrow>
          (case checkMessageType buf offset RPC_RESPONSE of
             Inl e \<Rightarrow> Inl e
           | Inr _ \<Rightarrow>
               (case readUInt16BE buf (offset + 1) of
                  Inl e \<Rightarrow> Inl e
                | Inr rpcDefinitionId \<Rightarrow>
                    (case rpcDefinitions rpcDefinitionId of
                       None \<Rightarrow> Inl (Error ''No RPC definition found'')
                     | Some rpcDef \<Rightarrow>
                         (case readUInt16BE buf (offset + 3) of
                            Inl e \<Rightarrow> Inl e
                          | Inr uniqueId \<Rightarrow>
                              (case fromUnsignedLEB128 buf (offset + 5) of
                                 Inl e \<Rightarrow> Inl e
                               | Inr (numResults, off) \<Rightarrow>
                                   (if numResults \<noteq> length (results rpcDef)
                                    then Inl (Error ''Mismatch in RPC result counts'')
                                    else
                                      (case rpcResultsLoop fuel (results rpcDef) buf off of
                                         Inl e \<Rightarrow> Inl e
                                       | Inr (rs, bufOffset) \<Rightarrow>
                                           Inr (V3RPCResponseMessage rpcDefinitionId uniqueId rs,
                                                bufOffset)))))))))"

subsubsection \<open>The top-level decoder\<close>

definition getMessageType :: "Buffer \<Rightarrow> nat \<Rightarrow> error + V3MessageType" where
  "getMessageType buf offset =
     (if \<not> inByteToV3MessageType (byteAt buf offset) then Inl InvalidMessageTypeError
      else Inr (numberOfByte (byteAt buf offset)))"

text \<open>
  \<open>try { ... } catch (e) { return undefined; }\<close>: every exception of the program becomes the
  return value \<open>undefined\<close> (\<open>None\<close>).  A run of the model that was given too little
  recursion depth is not a return of the program and stays \<open>Inl OutOfFuel\<close>.
\<close>

definition catchUndefined :: "error + V3MessageWrapper \<Rightarrow> error + V3MessageWrapper option" where
  "catchUndefined r =
     (case r of
        Inl OutOfFuel \<Rightarrow> Inl OutOfFuel
      | Inl e \<Rightarrow> Inr None
      | Inr w \<Rightarrow> Inr (Some w))"

definition getNextAvailableMessage ::
    "nat \<Rightarrow> (nat \<rightharpoonup> V3RPCDefinition) \<Rightarrow> Buffer \<Rightarrow> nat \<Rightarrow> error + V3MessageWrapper option" where
  "getNextAvailableMessage fuel rpcDefinitions buf offset =
     (case getMessageType buf offset of
        Inl e \<Rightarrow> Inr None
      | Inr msgType \<Rightarrow>
          (if msgType = KEEP_ALIVE then Inr (Some (V3KeepAliveMessage, offset + 1))
           else if msgType = CLIENT_HELLO then
             catchUndefined (clientHelloMessageFromBuffer buf offset)
           else if msgType = PROTO_VERSION_UNSUPPORTED then
             catchUndefined (protoVersionUnsupportedMessageFromBuffer buf offset)
           else if msgType = SERVER_HELLO_COMPLETE then
             Inr (Some (V3ServerHelloCompleteMessage, offset + 1))
           else if msgType = SERVER_HELLO then
             catchUndefined (serverHelloMessageFromBuffer buf offset)
           else if msgType = CLIENT_HELLO_COMPLETE then
             catchUndefined (clientHelloCompleteMessageFromBuffer buf offset)
           else if msgType = ENTRY_UPDATE then
             catchUndefined (entryUpdateMessageFromBuffer fuel buf offset)
           else if msgType = ENTRY_ASSIGNMENT then
             catchUndefined (entryAssignmentMessageFromBuffer fuel buf offset)
           else if msgType = ENTRY_FLAGS_UPDATE then
             catchUndefined (entryFlagsUpdateMessageFromBuffer buf offset)
           else if msgType = ENTRY_DELETE then
             catchUndefined (entryDeleteMessageFromBuffer buf offset)
           else if msgType = CLEAR_ALL_ENTRIES then
             catchUndefined (clearAllEntriesMessageFromBuffer buf offset)
           else if msgType = RPC_EXECUTE then
             catchUndefined (rpcExecuteMessageFromBuffer fuel rpcDefinitions buf offset)
           else if msgType = RPC_RESPONSE then
             catchUndefined (rpcResponseMessageFromBuffer fuel rpcDefinitions buf offset)
           else Inr None))"

subsection \<open>The messages that are decoded back\<close>

text \<open>
  The values, definitions and messages for which encoding followed by decoding is the
  identity.  A value for a type sets the field of that type and no other; an array has at
  most 255 elements; an RPC definition given as a value serializes to fewer than 128 bytes,
  has at most 255 parameters and 255 results, default values that are themselves such values
  for the type of their parameter, and result specs of empty value.
\<close>

fun roundtripValue :: "V3EntryType \<Rightarrow> NTEntryValue \<Rightarrow> bool"
  and roundtripDefinition :: "V3RPCDefinition \<Rightarrow> bool"
  and roundtripParameters :: "V3RPCParameter list \<Rightarrow> bool"
  and roundtripParameter :: "V3RPCParameter \<Rightarrow> bool"
where
  "roundtripValue type (NTEntryValue v_bool v_double v_str v_raw v_bool_array v_double_array
        v_str_array v_rpc) =
     (if type = BOOLEAN then
        v_bool \<noteq> None \<and> v_double = None \<and> v_str = None \<and> v_raw = None \<and> v_bool_array = None
        \<and> v_double_array = None \<and> v_str_array = None \<and> v_rpc = None
      else if type = DOUBLE then
        v_bool = None \<and> v_double \<noteq> None \<and> v_str = None \<and> v_raw = None \<and> v_bool_array = None
        \<and> v_double_array = None \<and> v_str_array = None \<and> v_rpc = None
      else if type = STRING then
        v_bool = None \<and> v_double = None \<and> v_str \<noteq> None \<and> v_raw = None \<and> v_bool_array = None
        \<and> v_double_array = None \<and> v_str_array = None \<and> v_rpc = None
      else if type = RAW then
        v_bool = None \<and> v_double = None \<and> v_str = None \<and> v_raw \<noteq> None \<and> v_bool_array = None
        \<and> v_double_array = None \<and> v_str_array = None \<and> v_rpc = None
      else if type = BOOLEAN_ARRAY then
        v_bool = None \<and> v_double = None \<and> v_str = None \<and> v_raw = None
        \<and> (case v_bool_array of None \<Rightarrow> False | Some bs \<Rightarrow> length bs \<le> 255)
        \<and> v_double_array = None \<and> v_str_array = None \<and> v_rpc = None
      else if type = DOUBLE_ARRAY then
        v_bool = None \<and> v_double = None \<and> v_str = None \<and> v_raw = None \<and> v_bool_array = None
        \<and> (case v_double_array of None \<Rightarrow> False | Some ds \<Rightarrow> length ds \<le> 255)
        \<and> v_str_array = None \<and> v_rpc = None
      else if type = STRING_ARRAY then
        v_bool = None \<and> v_double = None \<and> v_str = None \<and> v_raw = None \<and> v_bool_array = None
        \<and> v_double_array = None
        \<and> (case v_str_array of None \<Rightarrow> False | Some ss \<Rightarrow> length ss \<le> 255)
        \<and> v_rpc = None
      else if type = RPC then
        v_bool = None \<and> v_double = None \<and> v_str = None \<and> v_raw = None \<and> v_bool_array = None
        \<and> v_double_array = None \<and> v_str_array = None
        \<and> (case v_rpc of
              None \<Rightarrow> False
            | Some rpcDef \<Rightarrow>
                roundtripDefinition rpcDef
                \<and> (case encodeRPCDefinition rpcDef of
                      Inl e \<Rightarrow> False
                    | Inr encodedRpcBuf \<Rightarrow> length encodedRpcBuf < 128))
      else False)"
| "roundtripDefinition (V3RPCDefinition d_name d_parameters d_results) =
     (length d_parameters \<le> 255 \<and> length d_results \<le> 255
      \<and> roundtripParameters d_parameters
      \<and> list_all (\<lambda>result. r_value result = emptyValue) d_results)"
| "roundtripParameters [] = True"
| "roundtripParameters (param # params) =
     (roundtripParameter param \<and> roundtripParameters params)"
| "roundtripParameter (V3RPCParameter type pname val) = roundtripValue type val"

text \<open>
  The nesting depth of RPC definitions in a value: the recursion depth that decoding it
  takes.
\<close>

fun valueDepth :: "NTEntryValue \<Rightarrow> nat"
  and definitionDepth :: "V3RPCDefinition \<Rightarrow> nat"
  and parametersDepth :: "V3RPCParameter list \<Rightarrow> nat"
  and parameterDepth :: "V3RPCParameter \<Rightarrow> nat"
where
  "valueDepth (NTEntryValue v_bool v_double v_str v_raw v_bool_array v_double_array
        v_str_array v_rpc) =
     (case v_rpc of None \<Rightarrow> 0 | Some rpcDef \<Rightarrow> Suc (definitionDepth rpcDef))"
| "definitionDepth (V3RPCDefinition d_name d_parameters d_results) =
     parametersDepth d_parameters"
| "parametersDepth [] = 0"
| "parametersDepth (param # params) = max (parameterDepth param) (parametersDepth params)"
| "parameterDepth (V3RPCParameter type pname val) = valueDepth val"

fun resultsDepth :: "V3RPCResult list \<Rightarrow> nat" where
  "resultsDepth [] = 0"
| "resultsDepth (result # rs) = max (valueDepth (r_value result)) (resultsDepth rs)"

fun messageDepth :: "V3Message \<Rightarrow> nat" where
  "messageDepth (V3EntryAssignmentMessage entryName entryType entryId entrySeq entryFlags
       entryValue) = valueDepth entryValue"
| "messageDepth (V3EntryUpdateMessage entryType entryId entrySeq entryValue) =
     valueDepth entryValue"
| "messageDepth (V3RPCExecuteMessage rpcDefinitionId uniqueId params) = parametersDepth params"
| "messageDepth (V3RPCResponseMessage rpcDefinitionId uniqueId rs) = resultsDepth rs"
| "messageDepth msg = 0"

text \<open>
  The messages that are decoded back, given the definitions map of the decoder: a
  CLIENT_HELLO of version 3.0, version numbers that fit a byte, values as above, and for
  RPC_EXECUTE and RPC_RESPONSE a definition stored under the id of the message whose
  parameter (result) specs have the types and names of the values of the message, in order.
\<close>

fun roundtripMessage :: "(nat \<rightharpoonup> V3RPCDefinition) \<Rightarrow> V3Message \<Rightarrow> bool" where
  "roundtripMessage rpcDefinitions (V3ClientHelloMessage protocolMajor protocolMinor clientIdent) =
     (protocolMajor = 3 \<and> protocolMinor = 0)"
| "roundtripMessage rpcDefinitions (V3ProtoVersionUnsupportedMessage major minor) =
     (major < 256 \<and> minor < 256)"
| "roundtripMessage rpcDefinitions (V3EntryAssignmentMessage entryName entryType entryId
       entrySeq entryFlags entryValue) = roundtripValue entryType entryValue"
| "roundtripMessage rpcDefinitions (V3EntryUpdateMessage entryType entryId entrySeq entryValue) =
     roundtripValue entryType entryValue"
| "roundtripMessage rpcDefinitions (V3RPCExecuteMessage rpcDefinitionId uniqueId params) =
     (case rpcDefinitions rpcDefinitionId of
        None \<Rightarrow> False
      | Some rpcDefinition \<Rightarrow>
          map p_type (parameters rpcDefinition) = map p_type params
          \<and> map p_name (parameters rpcDefinition) = map p_name params
          \<and> roundtripParameters params)"
| "roundtripMessage rpcDefinitions (V3RPCResponseMessage rpcDefinitionId uniqueId rs) =
     (case rpcDefinitions rpcDefinitionId of
        None \<Rightarrow> False
      | Some rpcDef \<Rightarrow>
          map r_type (results rpcDef) = map r_type rs
          \<and> map r_name (results rpcDef) = map r_name rs
          \<and> list_all (\<lambda>result. roundtripValue (r_type result) (r_value result)) rs)"
| "roundtripMessage rpcDefinitions msg = True"

text \<open>A call that ends with an exception of the program.\<close>

definition throws :: "error + 'a \<Rightarrow> bool" where
  "throws r = (case r of Inl e \<Rightarrow> e \<noteq> OutOfFuel | Inr x \<Rightarrow> False)"
section \<open>Facts about the constants and primitives\<close>

lemmas V3MessageType_defs =
  KEEP_ALIVE_def CLIENT_HELLO_def PROTO_VERSION_UNSUPPORTED_def SERVER_HELLO_COMPLETE_def
  SERVER_HELLO_def CLIENT_HELLO_COMPLETE_def ENTRY_ASSIGNMENT_def ENTRY_UPDATE_def
  ENTRY_FLAGS_UPDATE_def ENTRY_DELETE_def CLEAR_ALL_ENTRIES_def RPC_EXECUTE_def RPC_RESPONSE_def

lemmas V3EntryType_defs =
  BOOLEAN_def DOUBLE_def STRING_def RAW_def BOOLEAN_ARRAY_def DOUBLE_ARRAY_def
  STRING_ARRAY_def RPC_def

lemma V3EntryType_distinct [simp]:
  "BOOLEAN \<noteq> DOUBLE" "BOOLEAN \<noteq> STRING" "BOOLEAN \<noteq> RAW"
  "BOOLEAN \<noteq> BOOLEAN_ARRAY" "BOOLEAN \<noteq> DOUBLE_ARRAY"
  "BOOLEAN \<noteq> STRING_ARRAY" "BOOLEAN \<noteq> RPC" "DOUBLE \<noteq> BOOLEAN"
  "DOUBLE \<noteq> STRING" "DOUBLE \<noteq> RAW" "DOUBLE \<noteq> BOOLEAN_ARRAY"
  "DOUBLE \<noteq> DOUBLE_ARRAY" "DOUBLE \<noteq> STRING_ARRAY" "DOUBLE \<noteq> RPC"
  "STRING \<noteq> BOOLEAN" "STRING \<noteq> DOUBLE" "STRING \<noteq> RAW"
  "STRING \<noteq> BOOLEAN_ARRAY" "STRING \<noteq> DOUBLE_ARRAY" "STRING \<noteq> STRING_ARRAY"
  "STRING \<noteq> RPC" "RAW \<noteq> BOOLEAN" "RAW \<noteq> DOUBLE" "RAW \<noteq> STRING"
  "RAW \<noteq> BOOLEAN_ARRAY" "RAW \<noteq> DOUBLE_ARRAY" "RAW \<noteq> STRING_ARRAY"
  "RAW \<noteq> RPC" "BOOLEAN_ARRAY \<noteq> BOOLEAN" "BOOLEAN_ARRAY \<noteq> DOUBLE"
  "BOOLEAN_ARRAY \<noteq> STRING" "BOOLEAN_ARRAY \<noteq> RAW"
  "BOOLEAN_ARRAY \<noteq> DOUBLE_ARRAY" "BOOLEAN_ARRAY \<noteq> STRING_ARRAY"
  "BOOLEAN_ARRAY \<noteq> RPC" "DOUBLE_ARRAY \<noteq> BOOLEAN" "DOUBLE_ARRAY \<noteq> DOUBLE"
  "DOUBLE_ARRAY \<noteq> STRING" "DOUBLE_ARRAY \<noteq> RAW"
  "DOUBLE_ARRAY \<noteq> BOOLEAN_ARRAY" "DOUBLE_ARRAY \<noteq> STRING_ARRAY"
  "DOUBLE_ARRAY \<noteq> RPC" "STRING_ARRAY \<noteq> BOOLEAN" "STRING_ARRAY \<noteq> DOUBLE"
  "STRING_ARRAY \<noteq> STRING" "STRING_ARRAY \<noteq> RAW"
  "STRING_ARRAY \<noteq> BOOLEAN_ARRAY" "STRING_ARRAY \<noteq> DOUBLE_ARRAY"
  "STRING_ARRAY \<noteq> RPC" "RPC \<noteq> BOOLEAN" "RPC \<noteq> DOUBLE"
  "RPC \<noteq> STRING" "RPC \<noteq> RAW" "RPC \<noteq> BOOLEAN_ARRAY"
  "RPC \<noteq> DOUBLE_ARRAY" "RPC \<noteq> STRING_ARRAY"
  by (simp_all add: V3EntryType_defs)

lemma V3MessageType_distinct [simp]:
  "KEEP_ALIVE \<noteq> CLIENT_HELLO" "KEEP_ALIVE \<noteq> PROTO_VERSION_UNSUPPORTED"
  "KEEP_ALIVE \<noteq> SERVER_HELLO_COMPLETE" "KEEP_ALIVE \<noteq> SERVER_HELLO"
  "KEEP_ALIVE \<noteq> CLIENT_HELLO_COMPLETE" "KEEP_ALIVE \<noteq> ENTRY_ASSIGNMENT"
  "KEEP_ALIVE \<noteq> ENTRY_UPDATE" "KEEP_ALIVE \<noteq> ENTRY_FLAGS_UPDATE"
  "KEEP_ALIVE \<noteq> ENTRY_DELETE" "KEEP_ALIVE \<noteq> CLEAR_ALL_ENTRIES"
  "KEEP_ALIVE \<noteq> RPC_EXECUTE" "KEEP_ALIVE \<noteq> RPC_RESPONSE"
  "CLIENT_HELLO \<noteq> KEEP_ALIVE" "CLIENT_HELLO \<noteq> PROTO_VERSION_UNSUPPORTED"
  "CLIENT_HELLO \<noteq> SERVER_HELLO_COMPLETE" "CLIENT_HELLO \<noteq> SERVER_HELLO"
  "CLIENT_HELLO \<noteq> CLIENT_HELLO_COMPLETE" "CLIENT_HELLO \<noteq> ENTRY_ASSIGNMENT"
  "CLIENT_HELLO \<noteq> ENTRY_UPDATE" "CLIENT_HELLO \<noteq> ENTRY_FLAGS_UPDATE"
  "CLIENT_HELLO \<noteq> ENTRY_DELETE" "CLIENT_HELLO \<noteq> CLEAR_ALL_ENTRIES"
  "CLIENT_HELLO \<noteq> RPC_EXECUTE" "CLIENT_HELLO \<noteq> RPC_RESPONSE"
  "PROTO_VERSION_UNSUPPORTED \<noteq> KEEP_ALIVE"
  "PROTO_VERSION_UNSUPPORTED \<noteq> CLIENT_HELLO"
  "PROTO_VERSION_UNSUPPORTED \<noteq> SERVER_HELLO_COMPLETE"
  "PROTO_VERSION_UNSUPPORTED \<noteq> SERVER_HELLO"
  "PROTO_VERSION_UNSUPPORTED \<noteq> CLIENT_HELLO_COMPLETE"
  "PROTO_VERSION_UNSUPPORTED \<noteq> ENTRY_ASSIGNMENT"
  "PROTO_VERSION_UNSUPPORTED \<noteq> ENTRY_UPDATE"
  "PROTO_VERSION_UNSUPPORTED \<noteq> ENTRY_FLAGS_UPDATE"
  "PROTO_VERSION_UNSUPPORTED \<noteq> ENTRY_DELETE"
  "PROTO_VERSION_UNSUPPORTED \<noteq> CLEAR_ALL_ENTRIES"
  "PROTO_VERSION_UNSUPPORTED \<noteq> RPC_EXECUTE"
  "PROTO_VERSION_UNSUPPORTED \<noteq> RPC_RESPONSE" "SERVER_HELLO_COMPLETE \<noteq> KEEP_ALIVE"
  "SERVER_HELLO_COMPLETE \<noteq> CLIENT_HELLO"
  "SERVER_HELLO_COMPLETE \<noteq> PROTO_VERSION_UNSUPPORTED"
  "SERVER_HELLO_COMPLETE \<noteq> SERVER_HELLO"
  "SERVER_HELLO_COMPLETE \<noteq> CLIENT_HELLO_COMPLETE"
  "SERVER_HELLO_COMPLETE \<noteq> ENTRY_ASSIGNMENT"
  "SERVER_HELLO_COMPLETE \<noteq> ENTRY_UPDATE"
  "SERVER_HELLO_COMPLETE \<noteq> ENTRY_FLAGS_UPDATE"
  "SERVER_HELLO_COMPLETE \<noteq> ENTRY_DELETE"
  "SERVER_HELLO_COMPLETE \<noteq> CLEAR_ALL_ENTRIES"
  "SERVER_HELLO_COMPLETE \<noteq> RPC_EXECUTE" "SERVER_HELLO_COMPLETE \<noteq> RPC_RESPONSE"
  "SERVER_HELLO \<noteq> KEEP_ALIVE" "SERVER_HELLO \<noteq> CLIENT_HELLO"
  "SERVER_HELLO \<noteq> PROTO_VERSION_UNSUPPORTED"
  "SERVER_HELLO \<noteq> SERVER_HELLO_COMPLETE" "SERVER_HELLO \<noteq> CLIENT_HELLO_COMPLETE"
  "SERVER_HELLO \<noteq> ENTRY_ASSIGNMENT" "SERVER_HELLO \<noteq> ENTRY_UPDATE"
  "SERVER_HELLO \<noteq> ENTRY_FLAGS_UPDATE" "SERVER_HELLO \<noteq> ENTRY_DELETE"
  "SERVER_HELLO \<noteq> CLEAR_ALL_ENTRIES" "SERVER_HELLO \<noteq> RPC_EXECUTE"
  "SERVER_HELLO \<noteq> RPC_RESPONSE" "CLIENT_HELLO_COMPLETE \<noteq> KEEP_ALIVE"
  "CLIENT_HELLO_COMPLETE \<noteq> CLIENT_HELLO"
  "CLIENT_HELLO_COMPLETE \<noteq> PROTO_VERSION_UNSUPPORTED"
  "CLIENT_HELLO_COMPLETE \<noteq> SERVER_HELLO_COMPLETE"
  "CLIENT_HELLO_COMPLETE \<noteq> SERVER_HELLO"
  "CLIENT_HELLO_COMPLETE \<noteq> ENTRY_ASSIGNMENT"
  "CLIENT_HELLO_COMPLETE \<noteq> ENTRY_UPDATE"
  "CLIENT_HELLO_COMPLETE \<noteq> ENTRY_FLAGS_UPDATE"
  "CLIENT_HELLO_COMPLETE \<noteq> ENTRY_DELETE"
  "CLIENT_HELLO_COMPLETE \<noteq> CLEAR_ALL_ENTRIES"
  "CLIENT_HELLO_COMPLETE \<noteq> RPC_EXECUTE" "CLIENT_HELLO_COMPLETE \<noteq> RPC_RESPONSE"
  "ENTRY_ASSIGNMENT \<noteq> KEEP_ALIVE" "ENTRY_ASSIGNMENT \<noteq> CLIENT_HELLO"
  "ENTRY_ASSIGNMENT \<noteq> PROTO_VERSION_UNSUPPORTED"
  "ENTRY_ASSIGNMENT \<noteq> SERVER_HELLO_COMPLETE" "ENTRY_ASSIGNMENT \<noteq> SERVER_HELLO"
  "ENTRY_ASSIGNMENT \<noteq> CLIENT_HELLO_COMPLETE" "ENTRY_ASSIGNMENT \<noteq> ENTRY_UPDATE"
  "ENTRY_ASSIGNMENT \<noteq> ENTRY_FLAGS_UPDATE" "ENTRY_ASSIGNMENT \<noteq> ENTRY_DELETE"
  "ENTRY_ASSIGNMENT \<noteq> CLEAR_ALL_ENTRIES" "ENTRY_ASSIGNMENT \<noteq> RPC_EXECUTE"
  "ENTRY_ASSIGNMENT \<noteq> RPC_RESPONSE" "ENTRY_UPDATE \<noteq> KEEP_ALIVE"
  "ENTRY_UPDATE \<noteq> CLIENT_HELLO" "ENTRY_UPDATE \<noteq> PROTO_VERSION_UNSUPPORTED"
  "ENTRY_UPDATE \<noteq> SERVER_HELLO_COMPLETE" "ENTRY_UPDATE \<noteq> SERVER_HELLO"
  "ENTRY_UPDATE \<noteq> CLIENT_HELLO_COMPLETE" "ENTRY_UPDATE \<noteq> ENTRY_ASSIGNMENT"
  "ENTRY_UPDATE \<noteq> ENTRY_FLAGS_UPDATE" "ENTRY_UPDATE \<noteq> ENTRY_DELETE"
  "ENTRY_UPDATE \<noteq> CLEAR_ALL_ENTRIES" "ENTRY_UPDATE \<noteq> RPC_EXECUTE"
  "ENTRY_UPDATE \<noteq> RPC_RESPONSE" "ENTRY_FLAGS_UPDATE \<noteq> KEEP_ALIVE"
  "ENTRY_FLAGS_UPDATE \<noteq> CLIENT_HELLO"
  "ENTRY_FLAGS_UPDATE \<noteq> PROTO_VERSION_UNSUPPORTED"
  "ENTRY_FLAGS_UPDATE \<noteq> SERVER_HELLO_COMPLETE"
  "ENTRY_FLAGS_UPDATE \<noteq> SERVER_HELLO"
  "ENTRY_FLAGS_UPDATE \<noteq> CLIENT_HELLO_COMPLETE"
  "ENTRY_FLAGS_UPDATE \<noteq> ENTRY_ASSIGNMENT" "ENTRY_FLAGS_UPDATE \<noteq> ENTRY_UPDATE"
  "ENTRY_FLAGS_UPDATE \<noteq> ENTRY_DELETE" "ENTRY_FLAGS_UPDATE \<noteq> CLEAR_ALL_ENTRIES"
  "ENTRY_FLAGS_UPDATE \<noteq> RPC_EXECUTE" "ENTRY_FLAGS_UPDATE \<noteq> RPC_RESPONSE"
  "ENTRY_DELETE \<noteq> KEEP_ALIVE" "ENTRY_DELETE \<noteq> CLIENT_HELLO"
  "ENTRY_DELETE \<noteq> PROTO_VERSION_UNSUPPORTED"
  "ENTRY_DELETE \<noteq> SERVER_HELLO_COMPLETE" "ENTRY_DELETE \<noteq> SERVER_HELLO"
  "ENTRY_DELETE \<noteq> CLIENT_HELLO_COMPLETE" "ENTRY_DELETE \<noteq> ENTRY_ASSIGNMENT"
  "ENTRY_DELETE \<noteq> ENTRY_UPDATE" "ENTRY_DELETE \<noteq> ENTRY_FLAGS_UPDATE"
  "ENTRY_DELETE \<noteq> CLEAR_ALL_ENTRIES" "ENTRY_DELETE \<noteq> RPC_EXECUTE"
  "ENTRY_DELETE \<noteq> RPC_RESPONSE" "CLEAR_ALL_ENTRIES \<noteq> KEEP_ALIVE"
  "CLEAR_ALL_ENTRIES \<noteq> CLIENT_HELLO"
  "CLEAR_ALL_ENTRIES \<noteq> PROTO_VERSION_UNSUPPORTED"
  "CLEAR_ALL_ENTRIES \<noteq> SERVER_HELLO_COMPLETE" "CLEAR_ALL_ENTRIES \<noteq> SERVER_HELLO"
  "CLEAR_ALL_ENTRIES \<noteq> CLIENT_HELLO_COMPLETE"
  "CLEAR_ALL_ENTRIES \<noteq> ENTRY_ASSIGNMENT" "CLEAR_ALL_ENTRIES \<noteq> ENTRY_UPDATE"
  "CLEAR_ALL_ENTRIES \<noteq> ENTRY_FLAGS_UPDATE" "CLEAR_ALL_ENTRIES \<noteq> ENTRY_DELETE"
  "CLEAR_ALL_ENTRIES \<noteq> RPC_EXECUTE" "CLEAR_ALL_ENTRIES \<noteq> RPC_RESPONSE"
  "RPC_EXECUTE \<noteq> KEEP_ALIVE" "RPC_EXECUTE \<noteq> CLIENT_HELLO"
  "RPC_EXECUTE \<noteq> PROTO_VERSION_UNSUPPORTED" "RPC_EXECUTE \<noteq> SERVER_HELLO_COMPLETE"
  "RPC_EXECUTE \<noteq> SERVER_HELLO" "RPC_EXECUTE \<noteq> CLIENT_HELLO_COMPLETE"
  "RPC_EXECUTE \<noteq> ENTRY_ASSIGNMENT" "RPC_EXECUTE \<noteq> ENTRY_UPDATE"
  "RPC_EXECUTE \<noteq> ENTRY_FLAGS_UPDATE" "RPC_EXECUTE \<noteq> ENTRY_DELETE"
  "RPC_EXECUTE \<noteq> CLEAR_ALL_ENTRIES" "RPC_EXECUTE \<noteq> RPC_RESPONSE"
  "RPC_RESPONSE \<noteq> KEEP_ALIVE" "RPC_RESPONSE \<noteq> CLIENT_HELLO"
  "RPC_RESPONSE \<noteq> PROTO_VERSION_UNSUPPORTED"
  "RPC_RESPONSE \<noteq> SERVER_HELLO_COMPLETE" "RPC_RESPONSE \<noteq> SERVER_HELLO"
  "RPC_RESPONSE \<noteq> CLIENT_HELLO_COMPLETE" "RPC_RESPONSE \<noteq> ENTRY_ASSIGNMENT"
  "RPC_RESPONSE \<noteq> ENTRY_UPDATE" "RPC_RESPONSE \<noteq> ENTRY_FLAGS_UPDATE"
  "RPC_RESPONSE \<noteq> ENTRY_DELETE" "RPC_RESPONSE \<noteq> CLEAR_ALL_ENTRIES"
  "RPC_RESPONSE \<noteq> RPC_EXECUTE"
  by (simp_all add: V3MessageType_defs)

section \<open>Entry flags: the flag byte\<close>

text \<open>
  C7.  For every flags object \<open>f\<close>, \<open>entryFlagsToUInt8 f\<close> is a byte whose bit 0 is set iff
  \<open>f\<close> is persistent, all its other bits being zero (shifting bit 0 out leaves 0); for
  every byte \<open>b\<close>, \<open>UInt8ToEntryFlags b\<close> is persistent iff bit 0 of \<open>b\<close> is set, the
  other bits of \<open>b\<close> being ignored (the result is that of \<open>b AND 1\<close>); hence
  \<open>entryFlagsToUInt8 (UInt8ToEntryFlags b) = b AND 1\<close>.
\<close>

theorem entryFlags_bit0:
  "bit (entryFlagsToUInt8 f) 0 = persistent f
   \<and> drop_bit 1 (entryFlagsToUInt8 f) = 0
   \<and> persistent (UInt8ToEntryFlags b) = bit b 0
   \<and> UInt8ToEntryFlags b = UInt8ToEntryFlags (b AND 1)
   \<and> entryFlagsToUInt8 (UInt8ToEntryFlags b) = b AND 1"
proof -
  have "bit (entryFlagsToUInt8 f) 0 = persistent f"
    by (simp add: entryFlagsToUInt8_def)
  moreover have "drop_bit 1 (entryFlagsToUInt8 f) = 0"
    by (simp add: entryFlagsToUInt8_def)
  moreover have "persistent (UInt8ToEntryFlags b) = bit b 0"
    by (simp add: UInt8ToEntryFlags_def and_one_eq bit_0 mod2_eq_if)
  moreover have "UInt8ToEntryFlags b = UInt8ToEntryFlags (b AND 1)"
    by (simp add: UInt8ToEntryFlags_def and.assoc)
  moreover have "entryFlagsToUInt8 (UInt8ToEntryFlags b) = b AND 1"
    by (simp add: entryFlagsToUInt8_def UInt8ToEntryFlags_def and_one_eq mod2_eq_if)
  ultimately show ?thesis by simp
qed

lemma byteAt_Some_iff: "byteAt buf i = Some b \<longleftrightarrow> i < length buf \<and> buf ! i = b"
  by (auto simp: byteAt_def)

lemma boolArrayLoop_eq:
  "boolArrayLoop n buf off = (map (\<lambda>i. byteAt buf (off + i) = Some 1) [0..<n], off + n)"
proof (induction n arbitrary: off)
  case 0
  then show ?case by simp
next
  case (Suc n)
  have "map (\<lambda>i. byteAt buf (off + i) = Some 1) [0..<Suc n]
        = (byteAt buf off = Some 1) # map (\<lambda>i. byteAt buf (Suc off + i) = Some 1) [0..<n]"
    by (simp add: upt_rec [of 0 "Suc n"] map_Suc_upt [symmetric] del: upt_Suc)
  with Suc [of "off + 1"] show ?case by simp
qed

lemma map_byteAt_take_drop:
  assumes "off + n \<le> length buf"
  shows "map (\<lambda>i. f (byteAt buf (off + i))) [0..<n] = map (\<lambda>b. f (Some b)) (take n (drop off buf))"
  using assms by (auto simp: list_eq_iff_nth_eq byteAt_def)

section \<open>Decoding booleans\<close>

text \<open>
  C9.  \<open>entryValueFromBuffer\<close> for the BOOLEAN type, and for each element of a
  BOOLEAN_ARRAY, decodes the value byte \<open>b\<close> to true iff \<open>b = 1\<close>; every other byte,
  the bytes from 2 on included, decodes to false and raises nothing.  The only failures are
  those of a buffer too short for the value.
\<close>

theorem boolean_decodes_one_only:
  "entryValueFromBuffer fuel BOOLEAN buf offset =
     (if length buf < offset + 1 then Inl InvalidBufferLengthError
      else Inr (NTEntryValue (Some (buf ! offset = 1)) None None None None None None None,
                offset + 1))
   \<and> entryValueFromBuffer fuel BOOLEAN_ARRAY buf offset =
     (if length buf < offset + 1 then Inl RangeError
      else if length buf < offset + 1 + unat (buf ! offset) then Inl InvalidBufferLengthError
      else Inr (NTEntryValue None None None None
                  (Some (map (\<lambda>b. b = 1) (take (unat (buf ! offset)) (drop (offset + 1) buf))))
                  None None None,
                offset + 1 + unat (buf ! offset)))"
proof -
  have A: "entryValueFromBuffer fuel BOOLEAN buf offset =
     (if length buf < offset + 1 then Inl InvalidBufferLengthError
      else Inr (NTEntryValue (Some (buf ! offset = 1)) None None None None None None None,
                offset + 1))"
    by (simp add: checkBufferLength_def byteAt_def)
  have ne: "BOOLEAN_ARRAY \<noteq> BOOLEAN" "BOOLEAN_ARRAY \<noteq> DOUBLE" "BOOLEAN_ARRAY \<noteq> STRING"
    "BOOLEAN_ARRAY \<noteq> RAW"
    by (simp_all add: V3EntryType_defs)
  have B: "entryValueFromBuffer fuel BOOLEAN_ARRAY buf offset =
     (if length buf < offset + 1 then Inl RangeError
      else if length buf < offset + 1 + unat (buf ! offset) then Inl InvalidBufferLengthError
      else Inr (NTEntryValue None None None None
                  (Some (map (\<lambda>b. b = 1) (take (unat (buf ! offset)) (drop (offset + 1) buf))))
                  None None None,
                offset + 1 + unat (buf ! offset)))"
    using map_byteAt_take_drop [of "offset + 1" "unat (buf ! offset)" buf "\<lambda>x. x = Some 1"]
    by (simp add: ne readUInt8_def checkBufferLength_def boolArrayLoop_eq add.assoc)
  from A B show ?thesis by (rule conjI)
qed

lemma unat_byteOfNumber: "unat (byteOfNumber n) = n mod 256"
  by (simp add: byteOfNumber_def unat_of_nat)

lemma length_ieee754_write: "length (ieee754_write x) = 8"
  by (simp add: ieee754_write_def)

lemma length_concat_ieee754: "length (concat (map ieee754_write ds)) = 8 * length ds"
  by (induction ds) (simp_all add: length_ieee754_write)

section \<open>Encoding arrays: the count byte\<close>

text \<open>
  C10.  \<open>entryValueToBuffer\<close> for the array types (BOOLEAN_ARRAY, DOUBLE_ARRAY,
  STRING_ARRAY) does not fail, whatever the length of the array, also beyond 255 elements: it
  writes one count byte, equal to the length of the array reduced modulo 256, and after it all
  the elements (one byte for each boolean, eight for each double, the length-prefixed form of
  each string); so for an array of more than 255 elements the count written differs from the
  number of elements serialized.
\<close>

theorem array_count_byte_wraps:
  "entryValueToBuffer BOOLEAN_ARRAY (NTEntryValue b d s r (Some bools) da sa rp)
     = Inr (byteOfNumber (length bools) # map (\<lambda>val. if val then 1 else 0) bools)
   \<and> entryValueToBuffer DOUBLE_ARRAY (NTEntryValue b d s r ba (Some doubles) sa rp)
     = Inr (byteOfNumber (length doubles) # concat (map ieee754_write doubles))
   \<and> entryValueToBuffer STRING_ARRAY (NTEntryValue b d s r ba da (Some strs) rp)
     = Inr (byteOfNumber (length strs) # concat (map encodeLEB128String strs))
   \<and> unat (byteOfNumber n) = n mod 256
   \<and> length (map (\<lambda>val. if val then 1 else 0 :: byte) bools) = length bools
   \<and> length (concat (map ieee754_write doubles)) = 8 * length doubles
   \<and> (255 < n \<longrightarrow> unat (byteOfNumber n) \<noteq> n)"
proof -
  have A: "entryValueToBuffer BOOLEAN_ARRAY (NTEntryValue b d s r (Some bools) da sa rp)
     = Inr (byteOfNumber (length bools) # map (\<lambda>val. if val then 1 else 0) bools)"
    by (simp add: checkEntryValue_def)
  have B: "entryValueToBuffer DOUBLE_ARRAY (NTEntryValue b d s r ba (Some doubles) sa rp)
     = Inr (byteOfNumber (length doubles) # concat (map ieee754_write doubles))"
    by (simp add: checkEntryValue_def)
  have C: "entryValueToBuffer STRING_ARRAY (NTEntryValue b d s r ba da (Some strs) rp)
     = Inr (byteOfNumber (length strs) # concat (map encodeLEB128String strs))"
    by (simp add: checkEntryValue_def)
  have "n mod 256 < 256" by simp
  then have D: "255 < n \<longrightarrow> unat (byteOfNumber n) \<noteq> n"
    unfolding unat_byteOfNumber by linarith
  from A B C D show ?thesis
    by (simp add: unat_byteOfNumber length_concat_ieee754)
qed

theorem array_count_byte_wraps_witness:
  "entryValueToBuffer BOOLEAN_ARRAY
       (NTEntryValue None None None None (Some (replicate 256 True)) None None None)
     = Inr (0 # replicate 256 1)
   \<and> (255::nat) < 256 \<and> unat (byteOfNumber 256) \<noteq> 256"
  using array_count_byte_wraps [where bools = "replicate 256 True" and n = 256 and b = None
      and d = None and s = None and r = None and da = None and sa = None and rp = None]
  by (simp add: byteOfNumber_def)

declare entryValueFromBuffer.simps [simp del] decodeRPCDefinition.simps [simp del]
  decodeRPCParameterSpec.simps [simp del]

section \<open>ENTRY_DELETE and CLEAR_ALL_ENTRIES at an offset\<close>

text \<open>
  C8.  For every buffer and every offset, the nonzero ones in particular,
  \<open>entryDeleteMessageFromBuffer\<close> returns the entry id read from the big-endian 16-bit
  field at the absolute bytes 1 and 2 of the buffer, not at \<open>offset + 1\<close>, while the new
  offset it returns is \<open>offset + 3\<close>; \<open>clearAllEntriesMessageFromBuffer\<close> validates the
  magic read from the absolute bytes 1 to 4, not at \<open>offset + 1\<close>.  The outcome of both
  depends on the length of the buffer, the type byte at \<open>offset\<close> and those absolute bytes
  only: the body bytes at the offset are not used.  For instance the ENTRY_DELETE of id 9
  that follows an ENTRY_DELETE of id 7 is decoded with id 7.
\<close>

theorem delete_and_clear_read_absolute:
  "entryDeleteMessageFromBuffer buf offset =
     (if length buf < offset + 3 then Inl InvalidBufferLengthError
      else if buf ! offset \<noteq> ENTRY_DELETE then Inl InvalidMessageTypeError
      else Inr (V3EntryDeleteMessage (unat (buf ! 1) * 256 + unat (buf ! 2)), offset + 3))
   \<and> clearAllEntriesMessageFromBuffer buf offset =
     (if length buf < offset + 5 then Inl InvalidBufferLengthError
      else if buf ! offset \<noteq> CLEAR_ALL_ENTRIES then Inl InvalidMessageTypeError
      else if unat (buf ! 1) * 16777216 + unat (buf ! 2) * 65536 + unat (buf ! 3) * 256
              + unat (buf ! 4) \<noteq> CLEAR_ALL_ENTRIES_MAGIC_VALUE
        then Inl (InvalidEntryValueError ''Invalid Magic number for CLEAR ALL ENTRIES'')
      else Inr (V3ClearAllEntriesMessage, offset + 5))
   \<and> entryDeleteMessageFromBuffer [0x13, 0, 7, 0x13, 0, 9] 3 = Inr (V3EntryDeleteMessage 7, 6)"
proof -
  have A: "entryDeleteMessageFromBuffer buf offset =
     (if length buf < offset + 3 then Inl InvalidBufferLengthError
      else if buf ! offset \<noteq> ENTRY_DELETE then Inl InvalidMessageTypeError
      else Inr (V3EntryDeleteMessage (unat (buf ! 1) * 256 + unat (buf ! 2)), offset + 3))"
    by (simp add: entryDeleteMessageFromBuffer_def checkBufferLength_def checkMessageType_def
        byteAt_def readUInt16BE_def numeral_2_eq_2 [symmetric])
  have B: "clearAllEntriesMessageFromBuffer buf offset =
     (if length buf < offset + 5 then Inl InvalidBufferLengthError
      else if buf ! offset \<noteq> CLEAR_ALL_ENTRIES then Inl InvalidMessageTypeError
      else if unat (buf ! 1) * 16777216 + unat (buf ! 2) * 65536 + unat (buf ! 3) * 256
              + unat (buf ! 4) \<noteq> CLEAR_ALL_ENTRIES_MAGIC_VALUE
        then Inl (InvalidEntryValueError ''Invalid Magic number for CLEAR ALL ENTRIES'')
      else Inr (V3ClearAllEntriesMessage, offset + 5))"
    by (simp add: clearAllEntriesMessageFromBuffer_def checkBufferLength_def
        checkMessageType_def byteAt_def readUInt32BE_def numeral_2_eq_2 [symmetric])
  have C: "entryDeleteMessageFromBuffer [0x13, 0, 7, 0x13, 0, 9] 3
           = Inr (V3EntryDeleteMessage 7, 6)"
    by (simp add: entryDeleteMessageFromBuffer_def checkBufferLength_def checkMessageType_def
        byteAt_def readUInt16BE_def ENTRY_DELETE_def)
  from A B C show ?thesis by simp
qed

text \<open>
  C5.  \<open>clearAllEntriesMessageFromBuffer\<close> is to reject every CLEAR_ALL_ENTRIES message
  whose magic field differs from 0xD06CB27A and to accept the correct magic with the new
  offset \<open>offset + 5\<close>, at every offset.  At a nonzero offset the code does not: it
  accepts the message at offset 5 whose magic field is 0 when the bytes 1 to 4 of the buffer hold
  the magic, and it rejects a well-formed message at offset 5 that follows five KEEP_ALIVE
  bytes.
\<close>

theorem clearAll_magic_not_at_offset:
  "clearAllEntriesMessageFromBuffer
       [0x14, 0xD0, 0x6C, 0xB2, 0x7A, 0x14, 0x00, 0x00, 0x00, 0x00] 5
     = Inr (V3ClearAllEntriesMessage, 10)
   \<and> readUInt32BE [0x14, 0xD0, 0x6C, 0xB2, 0x7A, 0x14, 0x00, 0x00, 0x00, 0x00] (5 + 1) = Inr 0
   \<and> clearAllEntriesMessageFromBuffer
       [0x00, 0x00, 0x00, 0x00, 0x00, 0x14, 0xD0, 0x6C, 0xB2, 0x7A] 5
     = Inl (InvalidEntryValueError ''Invalid Magic number for CLEAR ALL ENTRIES'')
   \<and> readUInt32BE [0x00, 0x00, 0x00, 0x00, 0x00, 0x14, 0xD0, 0x6C, 0xB2, 0x7A] (5 + 1)
     = Inr CLEAR_ALL_ENTRIES_MAGIC_VALUE"
  by (simp add: clearAllEntriesMessageFromBuffer_def checkBufferLength_def
      checkMessageType_def byteAt_def readUInt32BE_def CLEAR_ALL_ENTRIES_def
      CLEAR_ALL_ENTRIES_MAGIC_VALUE_def)

section \<open>Result specs of an RPC definition\<close>

lemma decodeRPCResultSpec_Inr:
  assumes "decodeRPCResultSpec buf off = Inr (r, off')"
  shows "r_value r = emptyValue" and "decodeLEB128String buf (off + 1) = Inr (r_name r, off')"
    and "byteAt buf off = Some (r_type r)"
  using assms
  by (auto simp: decodeRPCResultSpec_def split: sum.splits option.splits prod.splits)

lemma decodeRPCResultSpecs_values:
  "decodeRPCResultSpecs n buf off = Inr (rs, off') \<Longrightarrow> \<forall>r \<in> set rs. r_value r = emptyValue"
proof (induction n arbitrary: off rs)
  case 0
  then show ?case by simp
next
  case (Suc n)
  from Suc.prems obtain r o1 rs' where
    r: "decodeRPCResultSpec buf off = Inr (r, o1)"
    and rest: "decodeRPCResultSpecs n buf o1 = Inr (rs', off')"
    and rs: "rs = r # rs'"
    by (auto split: sum.splits prod.splits)
  from decodeRPCResultSpec_Inr(1) [OF r] Suc.IH [OF rest] rs show ?case by simp
qed

lemma decodeRPCDefinition_results:
  assumes "decodeRPCDefinition fuel buf off = Inr (d, off')"
  shows "\<forall>r \<in> set (results d). r_value r = emptyValue"
proof -
  from assms obtain n o2 where "decodeRPCResultSpecs n buf o2 = Inr (results d, off')"
    by (auto simp: decodeRPCDefinition.simps split: if_splits sum.splits prod.splits)
  then show ?thesis by (rule decodeRPCResultSpecs_values)
qed

lemma encodeRPCDefinition_Inr:
  assumes "encodeRPCDefinition d = Inr bs"
  shows "\<exists>paramBuffers. encodeRPCParameterSpecs (parameters d) = Inr paramBuffers
      \<and> bs = [1] @ encodeLEB128String (name d)
             @ [byteOfNumber (length paramBuffers)] @ concat paramBuffers
             @ [byteOfNumber (length (results d))]
             @ concat (map encodeRPCResultSpec (results d))"
  using assms by (cases d) (auto split: sum.splits)

text \<open>
  C6.  For every RPC definition, \<open>encodeRPCDefinition\<close> writes each result spec as one type
  byte followed by the length-prefixed result name, and no default value (the value of the
  result does not occur in what is written); \<open>decodeRPCDefinition\<close> returns result specs
  whose value is empty, and the decoder of a result spec consumes nothing after the name: its
  new offset is the one the string decoder returns for the name.
\<close>

theorem result_specs_carry_no_value:
  "encodeRPCResultSpec r = [r_type r] @ toUnsignedLEB128 (length (r_name r)) @ r_name r
   \<and> (encodeRPCDefinition d = Inr bs \<longrightarrow>
        (\<exists>paramBuffers. encodeRPCParameterSpecs (parameters d) = Inr paramBuffers
           \<and> bs = [1] @ encodeLEB128String (name d)
                  @ [byteOfNumber (length paramBuffers)] @ concat paramBuffers
                  @ [byteOfNumber (length (results d))]
                  @ concat (map (\<lambda>r. [r_type r] @ encodeLEB128String (r_name r)) (results d))))
   \<and> (decodeRPCResultSpec buf off = Inr (r', off') \<longrightarrow>
        r_value r' = emptyValue \<and> byteAt buf off = Some (r_type r')
        \<and> decodeLEB128String buf (off + 1) = Inr (r_name r', off'))
   \<and> (decodeRPCDefinition fuel bufd offd = Inr (d', offd') \<longrightarrow>
        (\<forall>x \<in> set (results d'). r_value x = emptyValue))"
proof -
  have A: "encodeRPCResultSpec r = [r_type r] @ toUnsignedLEB128 (length (r_name r)) @ r_name r"
    by (simp add: encodeRPCResultSpec_def encodeLEB128String_def)
  have eq: "encodeRPCResultSpec = (\<lambda>r. [r_type r] @ encodeLEB128String (r_name r))"
    by (rule ext) (simp add: encodeRPCResultSpec_def)
  have B: "encodeRPCDefinition d = Inr bs \<longrightarrow>
        (\<exists>paramBuffers. encodeRPCParameterSpecs (parameters d) = Inr paramBuffers
           \<and> bs = [1] @ encodeLEB128String (name d)
                  @ [byteOfNumber (length paramBuffers)] @ concat paramBuffers
                  @ [byteOfNumber (length (results d))]
                  @ concat (map (\<lambda>r. [r_type r] @ encodeLEB128String (r_name r)) (results d)))"
    using encodeRPCDefinition_Inr [of d bs] unfolding eq by blast
  have C: "decodeRPCResultSpec buf off = Inr (r', off') \<longrightarrow>
        r_value r' = emptyValue \<and> byteAt buf off = Some (r_type r')
        \<and> decodeLEB128String buf (off + 1) = Inr (r_name r', off')"
    using decodeRPCResultSpec_Inr [of buf off r' off'] by blast
  have D: "decodeRPCDefinition fuel bufd offd = Inr (d', offd') \<longrightarrow>
        (\<forall>x \<in> set (results d'). r_value x = emptyValue)"
    using decodeRPCDefinition_results [of fuel bufd offd d' offd'] by blast
  from A B C D show ?thesis by blast
qed

theorem result_specs_carry_no_value_witness:
  "encodeRPCDefinition
       (V3RPCDefinition [0x66] []
          [V3RPCResult STRING [0x72]
             (NTEntryValue None None (Some [0x78]) None None None None None)])
     = Inr [1, 1, 0x66, 0, 1, 2, 1, 0x72]
   \<and> decodeRPCResultSpec [1, 1, 0x66, 0, 1, 2, 1, 0x72] 5
     = Inr (V3RPCResult STRING [0x72] emptyValue, 8)
   \<and> decodeRPCDefinition 0 [1, 1, 0x66, 0, 1, 2, 1, 0x72] 0
     = Inr (V3RPCDefinition [0x66] [] [V3RPCResult STRING [0x72] emptyValue], 8)
   \<and> map r_value (results (V3RPCDefinition [0x66] [] [V3RPCResult STRING [0x72] emptyValue]))
     = [emptyValue]
   \<and> decodeLEB128String [1, 1, 0x66, 0, 1, 2, 1, 0x72] (5 + 1) = Inr ([0x72], 8)"
proof -
  let ?d = "V3RPCDefinition [0x66] []
          [V3RPCResult STRING [0x72]
             (NTEntryValue None None (Some [0x78]) None None None None None)]"
  let ?bs = "[1, 1, 0x66, 0, 1, 2, 1, 0x72] :: Buffer"
  let ?r = "V3RPCResult STRING [0x72] emptyValue"
  let ?d' = "V3RPCDefinition [0x66] [] [?r]"
  have h1: "encodeRPCDefinition ?d = Inr ?bs"
    by code_simp
  have s1: "decodeLEB128String ?bs 6 = Inr ([0x72], 8)"
    by code_simp
  have h2: "decodeRPCResultSpec ?bs 5 = Inr (?r, 8)"
    by code_simp
  have h3: "decodeRPCDefinition 0 ?bs 0 = Inr (?d', 8)"
    by code_simp
  from result_specs_carry_no_value [where d = ?d and bs = ?bs and buf = ?bs and off = 5
      and r' = ?r and off' = 8 and fuel = 0 and bufd = ?bs and offd = 0 and d' = ?d' and offd' = 8]
    h1 h2 h3 s1
  show ?thesis by simp
qed

section \<open>RPC_EXECUTE and RPC_RESPONSE: the definition looked up\<close>

lemma rpcParametersLoop_iff:
  "rpcParametersLoop fuel defs buf off = Inr (ps, off') \<longleftrightarrow>
     (\<exists>vs os. length vs = length defs \<and> length os = length defs + 1
        \<and> os ! 0 = off \<and> os ! length defs = off'
        \<and> (\<forall>i < length defs.
              entryValueFromBuffer fuel (p_type (defs ! i)) buf (os ! i)
              = Inr (vs ! i, os ! Suc i))
        \<and> ps = map2 (\<lambda>s v. V3RPCParameter (p_type s) (p_name s) v) defs vs)"
proof (induction defs arbitrary: off ps)
  case Nil
  show ?case
  proof
    assume "rpcParametersLoop fuel [] buf off = Inr (ps, off')"
    then have "ps = []" "off' = off" by simp_all
    then show "\<exists>vs os. length vs = length ([] :: V3RPCParameter list)
        \<and> length os = length ([] :: V3RPCParameter list) + 1
        \<and> os ! 0 = off \<and> os ! length ([] :: V3RPCParameter list) = off'
        \<and> (\<forall>i < length ([] :: V3RPCParameter list).
              entryValueFromBuffer fuel (p_type ([] ! i)) buf (os ! i)
              = Inr (vs ! i, os ! Suc i))
        \<and> ps = map2 (\<lambda>s v. V3RPCParameter (p_type s) (p_name s) v) [] vs"
      by (intro exI [of _ "[]"] exI [of _ "[off]"]) simp
  next
    assume "\<exists>vs os. length vs = length ([] :: V3RPCParameter list)
        \<and> length os = length ([] :: V3RPCParameter list) + 1
        \<and> os ! 0 = off \<and> os ! length ([] :: V3RPCParameter list) = off'
        \<and> (\<forall>i < length ([] :: V3RPCParameter list).
              entryValueFromBuffer fuel (p_type ([] ! i)) buf (os ! i)
              = Inr (vs ! i, os ! Suc i))
        \<and> ps = map2 (\<lambda>s v. V3RPCParameter (p_type s) (p_name s) v) [] vs"
    then show "rpcParametersLoop fuel [] buf off = Inr (ps, off')" by auto
  qed
next
  case (Cons s defs)
  let ?mk = "\<lambda>s v. V3RPCParameter (p_type s) (p_name s) v"
  show ?case
  proof
    assume "rpcParametersLoop fuel (s # defs) buf off = Inr (ps, off')"
    then obtain v o1 ps' where
      v: "entryValueFromBuffer fuel (p_type s) buf off = Inr (v, o1)"
      and rest: "rpcParametersLoop fuel defs buf o1 = Inr (ps', off')"
      and ps: "ps = ?mk s v # ps'"
      by (auto split: sum.splits prod.splits)
    from rest Cons.IH [of o1 ps'] obtain vs os where
      l: "length vs = length defs" "length os = length defs + 1"
      and o: "os ! 0 = o1" "os ! length defs = off'"
      and d: "\<forall>i < length defs.
              entryValueFromBuffer fuel (p_type (defs ! i)) buf (os ! i)
              = Inr (vs ! i, os ! Suc i)"
      and ps': "ps' = map2 ?mk defs vs"
      by blast
    have "entryValueFromBuffer fuel (p_type ((s # defs) ! i)) buf ((off # os) ! i)
          = Inr ((v # vs) ! i, (off # os) ! Suc i)"
      if "i < length (s # defs)" for i
      using that v o d by (cases i) auto
    with l o ps ps'
    show "\<exists>vs os. length vs = length (s # defs) \<and> length os = length (s # defs) + 1
        \<and> os ! 0 = off \<and> os ! length (s # defs) = off'
        \<and> (\<forall>i < length (s # defs).
              entryValueFromBuffer fuel (p_type ((s # defs) ! i)) buf (os ! i)
              = Inr (vs ! i, os ! Suc i))
        \<and> ps = map2 ?mk (s # defs) vs"
      by (intro exI [of _ "v # vs"] exI [of _ "off # os"]) simp
  next
    assume "\<exists>vs os. length vs = length (s # defs) \<and> length os = length (s # defs) + 1
        \<and> os ! 0 = off \<and> os ! length (s # defs) = off'
        \<and> (\<forall>i < length (s # defs).
              entryValueFromBuffer fuel (p_type ((s # defs) ! i)) buf (os ! i)
              = Inr (vs ! i, os ! Suc i))
        \<and> ps = map2 ?mk (s # defs) vs"
    then obtain vs os where
      l: "length vs = length (s # defs)" "length os = length (s # defs) + 1"
      and o: "os ! 0 = off" "os ! length (s # defs) = off'"
      and d: "\<And>i. i < length (s # defs) \<Longrightarrow>
              entryValueFromBuffer fuel (p_type ((s # defs) ! i)) buf (os ! i)
              = Inr (vs ! i, os ! Suc i)"
      and ps: "ps = map2 ?mk (s # defs) vs"
      by blast
    from l obtain v vs' where vs: "vs = v # vs'" by (cases vs) auto
    from l obtain o0 os' where os: "os = o0 # os'" by (cases os) auto
    from d [of 0] vs os o have v: "entryValueFromBuffer fuel (p_type s) buf off = Inr (v, os' ! 0)"
      by simp
    have d': "entryValueFromBuffer fuel (p_type (defs ! i)) buf (os' ! i)
              = Inr (vs' ! i, os' ! Suc i)" if "i < length defs" for i
      using d [of "Suc i"] that vs os by simp
    have "\<exists>vs os. length vs = length defs \<and> length os = length defs + 1
        \<and> os ! 0 = os' ! 0 \<and> os ! length defs = off'
        \<and> (\<forall>i < length defs.
              entryValueFromBuffer fuel (p_type (defs ! i)) buf (os ! i)
              = Inr (vs ! i, os ! Suc i))
        \<and> map2 ?mk defs vs' = map2 ?mk defs vs"
      using l o vs os d' by (intro exI [of _ vs'] exI [of _ os']) simp
    with Cons.IH [of "os' ! 0" "map2 ?mk defs vs'"]
    have "rpcParametersLoop fuel defs buf (os' ! 0) = Inr (map2 ?mk defs vs', off')"
      by blast
    with v ps vs show "rpcParametersLoop fuel (s # defs) buf off = Inr (ps, off')"
      by simp
  qed
qed

lemma rpcResultsLoop_iff:
  "rpcResultsLoop fuel defs buf off = Inr (rs, off') \<longleftrightarrow>
     (\<exists>vs os. length vs = length defs \<and> length os = length defs + 1
        \<and> os ! 0 = off \<and> os ! length defs = off'
        \<and> (\<forall>i < length defs.
              entryValueFromBuffer fuel (r_type (defs ! i)) buf (os ! i)
              = Inr (vs ! i, os ! Suc i))
        \<and> rs = map2 (\<lambda>s v. V3RPCResult (r_type s) (r_name s) v) defs vs)"
proof (induction defs arbitrary: off rs)
  case Nil
  show ?case
  proof
    assume "rpcResultsLoop fuel [] buf off = Inr (rs, off')"
    then have "rs = []" "off' = off" by simp_all
    then show "\<exists>vs os. length vs = length ([] :: V3RPCResult list)
        \<and> length os = length ([] :: V3RPCResult list) + 1
        \<and> os ! 0 = off \<and> os ! length ([] :: V3RPCResult list) = off'
        \<and> (\<forall>i < length ([] :: V3RPCResult list).
              entryValueFromBuffer fuel (r_type ([] ! i)) buf (os ! i)
              = Inr (vs ! i, os ! Suc i))
        \<and> rs = map2 (\<lambda>s v. V3RPCResult (r_type s) (r_name s) v) [] vs"
      by (intro exI [of _ "[]"] exI [of _ "[off]"]) simp
  next
    assume "\<exists>vs os. length vs = length ([] :: V3RPCResult list)
        \<and> length os = length ([] :: V3RPCResult list) + 1
        \<and> os ! 0 = off \<and> os ! length ([] :: V3RPCResult list) = off'
        \<and> (\<forall>i < length ([] :: V3RPCResult list).
              entryValueFromBuffer fuel (r_type ([] ! i)) buf (os ! i)
              = Inr (vs ! i, os ! Suc i))
        \<and> rs = map2 (\<lambda>s v. V3RPCResult (r_type s) (r_name s) v) [] vs"
    then show "rpcResultsLoop fuel [] buf off = Inr (rs, off')" by auto
  qed
next
  case (Cons s defs)
  let ?mk = "\<lambda>s v. V3RPCResult (r_type s) (r_name s) v"
  show ?case
  proof
    assume "rpcResultsLoop fuel (s # defs) buf off = Inr (rs, off')"
    then obtain v o1 rs' where
      v: "entryValueFromBuffer fuel (r_type s) buf off = Inr (v, o1)"
      and rest: "rpcResultsLoop fuel defs buf o1 = Inr (rs', off')"
      and rs: "rs = ?mk s v # rs'"
      by (auto split: sum.splits prod.splits)
    from rest Cons.IH [of o1 rs'] obtain vs os where
      l: "length vs = length defs" "length os = length defs + 1"
      and o: "os ! 0 = o1" "os ! length defs = off'"
      and d: "\<forall>i < length defs.
              entryValueFromBuffer fuel (r_type (defs ! i)) buf (os ! i)
              = Inr (vs ! i, os ! Suc i)"
      and rs': "rs' = map2 ?mk defs vs"
      by blast
    have "entryValueFromBuffer fuel (r_type ((s # defs) ! i)) buf ((off # os) ! i)
          = Inr ((v # vs) ! i, (off # os) ! Suc i)"
      if "i < length (s # defs)" for i
      using that v o d by (cases i) auto
    with l o rs rs'
    show "\<exists>vs os. length vs = length (s # defs) \<and> length os = length (s # defs) + 1
        \<and> os ! 0 = off \<and> os ! length (s # defs) = off'
        \<and> (\<forall>i < length (s # defs).
              entryValueFromBuffer fuel (r_type ((s # defs) ! i)) buf (os ! i)
              = Inr (vs ! i, os ! Suc i))
        \<and> rs = map2 ?mk (s # defs) vs"
      by (intro exI [of _ "v # vs"] exI [of _ "off # os"]) simp
  next
    assume "\<exists>vs os. length vs = length (s # defs) \<and> length os = length (s # defs) + 1
        \<and> os ! 0 = off \<and> os ! length (s # defs) = off'
        \<and> (\<forall>i < length (s # defs).
              entryValueFromBuffer fuel (r_type ((s # defs) ! i)) buf (os ! i)
              = Inr (vs ! i, os ! Suc i))
        \<and> rs = map2 ?mk (s # defs) vs"
    then obtain vs os where
      l: "length vs = length (s # defs)" "length os = length (s # defs) + 1"
      and o: "os ! 0 = off" "os ! length (s # defs) = off'"
      and d: "\<And>i. i < length (s # defs) \<Longrightarrow>
              entryValueFromBuffer fuel (r_type ((s # defs) ! i)) buf (os ! i)
              = Inr (vs ! i, os ! Suc i)"
      and rs: "rs = map2 ?mk (s # defs) vs"
      by blast
    from l obtain v vs' where vs: "vs = v # vs'" by (cases vs) auto
    from l obtain o0 os' where os: "os = o0 # os'" by (cases os) auto
    from d [of 0] vs os o have v: "entryValueFromBuffer fuel (r_type s) buf off = Inr (v, os' ! 0)"
      by simp
    have d': "entryValueFromBuffer fuel (r_type (defs ! i)) buf (os' ! i)
              = Inr (vs' ! i, os' ! Suc i)" if "i < length defs" for i
      using d [of "Suc i"] that vs os by simp
    have "\<exists>vs os. length vs = length defs \<and> length os = length defs + 1
        \<and> os ! 0 = os' ! 0 \<and> os ! length defs = off'
        \<and> (\<forall>i < length defs.
              entryValueFromBuffer fuel (r_type (defs ! i)) buf (os ! i)
              = Inr (vs ! i, os ! Suc i))
        \<and> map2 ?mk defs vs' = map2 ?mk defs vs"
      using l o vs os d' by (intro exI [of _ vs'] exI [of _ os']) simp
    with Cons.IH [of "os' ! 0" "map2 ?mk defs vs'"]
    have "rpcResultsLoop fuel defs buf (os' ! 0) = Inr (map2 ?mk defs vs', off')"
      by blast
    with v rs vs show "rpcResultsLoop fuel (s # defs) buf off = Inr (rs, off')"
      by simp
  qed
qed


lemma readUInt16BE_after_check:
  "checkBufferLength buf offset n = Inr () \<Longrightarrow> k + 2 \<le> n \<Longrightarrow>
   \<exists>v. readUInt16BE buf (offset + k) = Inr v"
  by (simp add: checkBufferLength_def readUInt16BE_def split: if_splits)

lemma rpcExecute_unknown:
  assumes "checkBufferLength buf offset 6 = Inr ()"
    and "checkMessageType buf offset RPC_EXECUTE = Inr ()"
    and "readUInt16BE buf (offset + 1) = Inr defId" and "rpcDefinitions defId = None"
  shows "rpcExecuteMessageFromBuffer fuel rpcDefinitions buf offset
         = Inl (Error ''No RPC definition found'')"
  using assms by (simp add: rpcExecuteMessageFromBuffer_def)

lemma rpcExecute_mismatch:
  assumes "checkBufferLength buf offset 6 = Inr ()"
    and "checkMessageType buf offset RPC_EXECUTE = Inr ()"
    and "readUInt16BE buf (offset + 1) = Inr defId" and "rpcDefinitions defId = Some d"
    and "fromUnsignedLEB128 buf (offset + 5) = Inr (n, off)" and "n \<noteq> length (parameters d)"
  shows "rpcExecuteMessageFromBuffer fuel rpcDefinitions buf offset
         = Inl (Error ''Mismatch in RPC parameter counts'')"
proof -
  from readUInt16BE_after_check [OF assms(1), of 3] obtain uid where
    "readUInt16BE buf (offset + 3) = Inr uid" by auto
  with assms show ?thesis by (simp add: rpcExecuteMessageFromBuffer_def)
qed

lemma rpcExecute_match:
  assumes "checkBufferLength buf offset 6 = Inr ()"
    and "checkMessageType buf offset RPC_EXECUTE = Inr ()"
    and "readUInt16BE buf (offset + 1) = Inr defId"
    and "readUInt16BE buf (offset + 3) = Inr uid" and "rpcDefinitions defId = Some d"
    and "fromUnsignedLEB128 buf (offset + 5) = Inr (n, off)" and "n = length (parameters d)"
  shows "rpcExecuteMessageFromBuffer fuel rpcDefinitions buf offset = Inr (m, off') \<longleftrightarrow>
     (\<exists>vs os. length vs = n \<and> length os = n + 1 \<and> os ! 0 = off \<and> os ! n = off'
        \<and> (\<forall>i < n. entryValueFromBuffer fuel (p_type (parameters d ! i)) buf (os ! i)
                      = Inr (vs ! i, os ! Suc i))
        \<and> m = V3RPCExecuteMessage defId uid
                (map2 (\<lambda>s v. V3RPCParameter (p_type s) (p_name s) v) (parameters d) vs))"
proof -
  from assms have eq: "rpcExecuteMessageFromBuffer fuel rpcDefinitions buf offset
      = (case rpcParametersLoop fuel (parameters d) buf off of
           Inl e \<Rightarrow> Inl e
         | Inr (ps, bufOffset) \<Rightarrow> Inr (V3RPCExecuteMessage defId uid ps, bufOffset))"
    by (simp add: rpcExecuteMessageFromBuffer_def)
  have "rpcExecuteMessageFromBuffer fuel rpcDefinitions buf offset = Inr (m, off') \<longleftrightarrow>
      (\<exists>ps. rpcParametersLoop fuel (parameters d) buf off = Inr (ps, off')
            \<and> m = V3RPCExecuteMessage defId uid ps)"
    unfolding eq by (auto split: sum.splits prod.splits)
  then show ?thesis
    unfolding rpcParametersLoop_iff assms(7) by blast
qed

lemma rpcResponse_unknown:
  assumes "checkBufferLength buf offset 6 = Inr ()"
    and "checkMessageType buf offset RPC_RESPONSE = Inr ()"
    and "readUInt16BE buf (offset + 1) = Inr defId" and "rpcDefinitions defId = None"
  shows "rpcResponseMessageFromBuffer fuel rpcDefinitions buf offset
         = Inl (Error ''No RPC definition found'')"
  using assms by (simp add: rpcResponseMessageFromBuffer_def)

lemma rpcResponse_mismatch:
  assumes "checkBufferLength buf offset 6 = Inr ()"
    and "checkMessageType buf offset RPC_RESPONSE = Inr ()"
    and "readUInt16BE buf (offset + 1) = Inr defId" and "rpcDefinitions defId = Some d"
    and "fromUnsignedLEB128 buf (offset + 5) = Inr (n, off)" and "n \<noteq> length (results d)"
  shows "rpcResponseMessageFromBuffer fuel rpcDefinitions buf offset
         = Inl (Error ''Mismatch in RPC result counts'')"
proof -
  from readUInt16BE_after_check [OF assms(1), of 3] obtain uid where
    "readUInt16BE buf (offset + 3) = Inr uid" by auto
  with assms show ?thesis by (simp add: rpcResponseMessageFromBuffer_def)
qed

lemma rpcResponse_match:
  assumes "checkBufferLength buf offset 6 = Inr ()"
    and "checkMessageType buf offset RPC_RESPONSE = Inr ()"
    and "readUInt16BE buf (offset + 1) = Inr defId"
    and "readUInt16BE buf (offset + 3) = Inr uid" and "rpcDefinitions defId = Some d"
    and "fromUnsignedLEB128 buf (offset + 5) = Inr (n, off)" and "n = length (results d)"
  shows "rpcResponseMessageFromBuffer fuel rpcDefinitions buf offset = Inr (m, off') \<longleftrightarrow>
     (\<exists>vs os. length vs = n \<and> length os = n + 1 \<and> os ! 0 = off \<and> os ! n = off'
        \<and> (\<forall>i < n. entryValueFromBuffer fuel (r_type (results d ! i)) buf (os ! i)
                      = Inr (vs ! i, os ! Suc i))
        \<and> m = V3RPCResponseMessage defId uid
                (map2 (\<lambda>s v. V3RPCResult (r_type s) (r_name s) v) (results d) vs))"
proof -
  from assms have eq: "rpcResponseMessageFromBuffer fuel rpcDefinitions buf offset
      = (case rpcResultsLoop fuel (results d) buf off of
           Inl e \<Rightarrow> Inl e
         | Inr (rs, bufOffset) \<Rightarrow> Inr (V3RPCResponseMessage defId uid rs, bufOffset))"
    by (simp add: rpcResponseMessageFromBuffer_def)
  have "rpcResponseMessageFromBuffer fuel rpcDefinitions buf offset = Inr (m, off') \<longleftrightarrow>
      (\<exists>rs. rpcResultsLoop fuel (results d) buf off = Inr (rs, off')
            \<and> m = V3RPCResponseMessage defId uid rs)"
    unfolding eq by (auto split: sum.splits prod.splits)
  then show ?thesis
    unfolding rpcResultsLoop_iff assms(7) by blast
qed

text \<open>
  C4.  For every buffer and every definitions map, \<open>rpcExecuteMessageFromBuffer\<close> and
  \<open>rpcResponseMessageFromBuffer\<close>, once the length and the type byte are accepted and the
  definition id is read, fail with the error "No RPC definition found" (the spec's
  \<open>UnknownRpcDefinition\<close>) when the map holds no definition under that id, and with the
  error "Mismatch in RPC parameter counts" or "Mismatch in RPC result counts" (the spec's
  \<open>RpcArityMismatch\<close>) when the LEB128 count decoded differs from the number of parameters
  (of results) of the definition.  When the counts agree, exactly that many values are
  decoded, one after the other from the byte after the count, the \<open>i\<close>-th by
  \<open>entryValueFromBuffer\<close> at the type of the \<open>i\<close>-th spec of the definition and at the
  offset where the value before it ended: the decoder returns a message and a new offset if
  and only if each of these values decodes, and then the message holds the definition id and
  the unique id read from the buffer and these values under the types and names of the specs,
  and the new offset is the one where the last value ended.
\<close>

theorem rpc_decoders_check_definition:
  "(checkBufferLength buf offset 6 = Inr () \<and> checkMessageType buf offset RPC_EXECUTE = Inr ()
      \<and> readUInt16BE buf (offset + 1) = Inr defId \<and> rpcDefinitions defId = None
    \<longrightarrow> rpcExecuteMessageFromBuffer fuel rpcDefinitions buf offset
          = Inl (Error ''No RPC definition found''))
   \<and> (checkBufferLength buf offset 6 = Inr () \<and> checkMessageType buf offset RPC_EXECUTE = Inr ()
      \<and> readUInt16BE buf (offset + 1) = Inr defId \<and> rpcDefinitions defId = Some d
      \<and> fromUnsignedLEB128 buf (offset + 5) = Inr (n, off) \<and> n \<noteq> length (parameters d)
    \<longrightarrow> rpcExecuteMessageFromBuffer fuel rpcDefinitions buf offset
          = Inl (Error ''Mismatch in RPC parameter counts''))
   \<and> (checkBufferLength buf offset 6 = Inr () \<and> checkMessageType buf offset RPC_EXECUTE = Inr ()
      \<and> readUInt16BE buf (offset + 1) = Inr defId \<and> readUInt16BE buf (offset + 3) = Inr uid
      \<and> rpcDefinitions defId = Some d
      \<and> fromUnsignedLEB128 buf (offset + 5) = Inr (n, off) \<and> n = length (parameters d)
    \<longrightarrow> (rpcExecuteMessageFromBuffer fuel rpcDefinitions buf offset = Inr (m, off') \<longleftrightarrow>
          (\<exists>vs os. length vs = n \<and> length os = n + 1 \<and> os ! 0 = off \<and> os ! n = off'
             \<and> (\<forall>i < n. entryValueFromBuffer fuel (p_type (parameters d ! i)) buf (os ! i)
                           = Inr (vs ! i, os ! Suc i))
             \<and> m = V3RPCExecuteMessage defId uid
                     (map2 (\<lambda>s v. V3RPCParameter (p_type s) (p_name s) v)
                        (parameters d) vs))))
   \<and> (checkBufferLength buf offset 6 = Inr () \<and> checkMessageType buf offset RPC_RESPONSE = Inr ()
      \<and> readUInt16BE buf (offset + 1) = Inr defId \<and> rpcDefinitions defId = None
    \<longrightarrow> rpcResponseMessageFromBuffer fuel rpcDefinitions buf offset
          = Inl (Error ''No RPC definition found''))
   \<and> (checkBufferLength buf offset 6 = Inr () \<and> checkMessageType buf offset RPC_RESPONSE = Inr ()
      \<and> readUInt16BE buf (offset + 1) = Inr defId \<and> rpcDefinitions defId = Some d
      \<and> fromUnsignedLEB128 buf (offset + 5) = Inr (n, off) \<and> n \<noteq> length (results d)
    \<longrightarrow> rpcResponseMessageFromBuffer fuel rpcDefinitions buf offset
          = Inl (Error ''Mismatch in RPC result counts''))
   \<and> (checkBufferLength buf offset 6 = Inr () \<and> checkMessageType buf offset RPC_RESPONSE = Inr ()
      \<and> readUInt16BE buf (offset + 1) = Inr defId \<and> readUInt16BE buf (offset + 3) = Inr uid
      \<and> rpcDefinitions defId = Some d
      \<and> fromUnsignedLEB128 buf (offset + 5) = Inr (n, off) \<and> n = length (results d)
    \<longrightarrow> (rpcResponseMessageFromBuffer fuel rpcDefinitions buf offset = Inr (m, off') \<longleftrightarrow>
          (\<exists>vs os. length vs = n \<and> length os = n + 1 \<and> os ! 0 = off \<and> os ! n = off'
             \<and> (\<forall>i < n. entryValueFromBuffer fuel (r_type (results d ! i)) buf (os ! i)
                           = Inr (vs ! i, os ! Suc i))
             \<and> m = V3RPCResponseMessage defId uid
                     (map2 (\<lambda>s v. V3RPCResult (r_type s) (r_name s) v) (results d) vs))))"
proof (intro conjI impI)
  assume "checkBufferLength buf offset 6 = Inr () \<and> checkMessageType buf offset RPC_EXECUTE = Inr ()
      \<and> readUInt16BE buf (offset + 1) = Inr defId \<and> rpcDefinitions defId = None"
  then show "rpcExecuteMessageFromBuffer fuel rpcDefinitions buf offset
          = Inl (Error ''No RPC definition found'')"
    using rpcExecute_unknown [of buf offset defId rpcDefinitions fuel] by blast
next
  assume "checkBufferLength buf offset 6 = Inr () \<and> checkMessageType buf offset RPC_EXECUTE = Inr ()
      \<and> readUInt16BE buf (offset + 1) = Inr defId \<and> rpcDefinitions defId = Some d
      \<and> fromUnsignedLEB128 buf (offset + 5) = Inr (n, off) \<and> n \<noteq> length (parameters d)"
  then show "rpcExecuteMessageFromBuffer fuel rpcDefinitions buf offset
          = Inl (Error ''Mismatch in RPC parameter counts'')"
    using rpcExecute_mismatch [of buf offset defId rpcDefinitions d n off fuel] by blast
next
  assume "checkBufferLength buf offset 6 = Inr () \<and> checkMessageType buf offset RPC_EXECUTE = Inr ()
      \<and> readUInt16BE buf (offset + 1) = Inr defId \<and> readUInt16BE buf (offset + 3) = Inr uid
      \<and> rpcDefinitions defId = Some d
      \<and> fromUnsignedLEB128 buf (offset + 5) = Inr (n, off) \<and> n = length (parameters d)"
  then show "rpcExecuteMessageFromBuffer fuel rpcDefinitions buf offset = Inr (m, off') \<longleftrightarrow>
          (\<exists>vs os. length vs = n \<and> length os = n + 1 \<and> os ! 0 = off \<and> os ! n = off'
             \<and> (\<forall>i < n. entryValueFromBuffer fuel (p_type (parameters d ! i)) buf (os ! i)
                           = Inr (vs ! i, os ! Suc i))
             \<and> m = V3RPCExecuteMessage defId uid
                     (map2 (\<lambda>s v. V3RPCParameter (p_type s) (p_name s) v)
                        (parameters d) vs))"
    by (intro rpcExecute_match) simp_all
next
  assume "checkBufferLength buf offset 6 = Inr () \<and> checkMessageType buf offset RPC_RESPONSE = Inr ()
      \<and> readUInt16BE buf (offset + 1) = Inr defId \<and> rpcDefinitions defId = None"
  then show "rpcResponseMessageFromBuffer fuel rpcDefinitions buf offset
          = Inl (Error ''No RPC definition found'')"
    using rpcResponse_unknown [of buf offset defId rpcDefinitions fuel] by blast
next
  assume "checkBufferLength buf offset 6 = Inr () \<and> checkMessageType buf offset RPC_RESPONSE = Inr ()
      \<and> readUInt16BE buf (offset + 1) = Inr defId \<and> rpcDefinitions defId = Some d
      \<and> fromUnsignedLEB128 buf (offset + 5) = Inr (n, off) \<and> n \<noteq> length (results d)"
  then show "rpcResponseMessageFromBuffer fuel rpcDefinitions buf offset
          = Inl (Error ''Mismatch in RPC result counts'')"
    using rpcResponse_mismatch [of buf offset defId rpcDefinitions d n off fuel] by blast
next
  assume "checkBufferLength buf offset 6 = Inr () \<and> checkMessageType buf offset RPC_RESPONSE = Inr ()
      \<and> readUInt16BE buf (offset + 1) = Inr defId \<and> readUInt16BE buf (offset + 3) = Inr uid
      \<and> rpcDefinitions defId = Some d
      \<and> fromUnsignedLEB128 buf (offset + 5) = Inr (n, off) \<and> n = length (results d)"
  then show "rpcResponseMessageFromBuffer fuel rpcDefinitions buf offset = Inr (m, off') \<longleftrightarrow>
          (\<exists>vs os. length vs = n \<and> length os = n + 1 \<and> os ! 0 = off \<and> os ! n = off'
             \<and> (\<forall>i < n. entryValueFromBuffer fuel (r_type (results d ! i)) buf (os ! i)
                           = Inr (vs ! i, os ! Suc i))
             \<and> m = V3RPCResponseMessage defId uid
                     (map2 (\<lambda>s v. V3RPCResult (r_type s) (r_name s) v) (results d) vs))"
    by (intro rpcResponse_match) simp_all
qed

theorem rpc_decoders_check_definition_witness:
  "rpcExecuteMessageFromBuffer 0
       [(7::nat) \<mapsto> V3RPCDefinition [0x66]
          [V3RPCParameter BOOLEAN [0x61] (NTEntryValue (Some True) None None None None None None None),
           V3RPCParameter BOOLEAN [0x62] (NTEntryValue (Some True) None None None None None None None)]
          [V3RPCResult BOOLEAN [0x72] emptyValue]]
       [0x20, 0, 9, 0, 1, 0] 0
     = Inl (Error ''No RPC definition found'')
   \<and> rpcExecuteMessageFromBuffer 0
       [(7::nat) \<mapsto> V3RPCDefinition [0x66]
          [V3RPCParameter BOOLEAN [0x61] (NTEntryValue (Some True) None None None None None None None),
           V3RPCParameter BOOLEAN [0x62] (NTEntryValue (Some True) None None None None None None None)]
          [V3RPCResult BOOLEAN [0x72] emptyValue]]
       [0x20, 0, 7, 0, 1, 3, 1, 0, 1] 0
     = Inl (Error ''Mismatch in RPC parameter counts'')
   \<and> rpcExecuteMessageFromBuffer 0
       [(7::nat) \<mapsto> V3RPCDefinition [0x66]
          [V3RPCParameter BOOLEAN [0x61] (NTEntryValue (Some True) None None None None None None None),
           V3RPCParameter BOOLEAN [0x62] (NTEntryValue (Some True) None None None None None None None)]
          [V3RPCResult BOOLEAN [0x72] emptyValue]]
       [0x20, 0, 7, 0, 1, 2, 1, 5] 0
     = Inr (V3RPCExecuteMessage 7 1
         [V3RPCParameter BOOLEAN [0x61] (NTEntryValue (Some True) None None None None None None None),
          V3RPCParameter BOOLEAN [0x62] (NTEntryValue (Some False) None None None None None None None)],
         8)
   \<and> rpcResponseMessageFromBuffer 0
       [(7::nat) \<mapsto> V3RPCDefinition [0x66]
          [V3RPCParameter BOOLEAN [0x61] (NTEntryValue (Some True) None None None None None None None),
           V3RPCParameter BOOLEAN [0x62] (NTEntryValue (Some True) None None None None None None None)]
          [V3RPCResult BOOLEAN [0x72] emptyValue]]
       [0x21, 0, 9, 0, 1, 0] 0
     = Inl (Error ''No RPC definition found'')
   \<and> rpcResponseMessageFromBuffer 0
       [(7::nat) \<mapsto> V3RPCDefinition [0x66]
          [V3RPCParameter BOOLEAN [0x61] (NTEntryValue (Some True) None None None None None None None),
           V3RPCParameter BOOLEAN [0x62] (NTEntryValue (Some True) None None None None None None None)]
          [V3RPCResult BOOLEAN [0x72] emptyValue]]
       [0x21, 0, 7, 0, 1, 2, 1, 0] 0
     = Inl (Error ''Mismatch in RPC result counts'')
   \<and> rpcResponseMessageFromBuffer 0
       [(7::nat) \<mapsto> V3RPCDefinition [0x66]
          [V3RPCParameter BOOLEAN [0x61] (NTEntryValue (Some True) None None None None None None None),
           V3RPCParameter BOOLEAN [0x62] (NTEntryValue (Some True) None None None None None None None)]
          [V3RPCResult BOOLEAN [0x72] emptyValue]]
       [0x21, 0, 7, 0, 1, 1, 1] 0
     = Inr (V3RPCResponseMessage 7 1
         [V3RPCResult BOOLEAN [0x72] (NTEntryValue (Some True) None None None None None None None)],
         7)
   \<and> (\<exists>e. rpcResponseMessageFromBuffer 0
       [(7::nat) \<mapsto> V3RPCDefinition [0x66]
          [V3RPCParameter BOOLEAN [0x61] (NTEntryValue (Some True) None None None None None None None),
           V3RPCParameter BOOLEAN [0x62] (NTEntryValue (Some True) None None None None None None None)]
          [V3RPCResult BOOLEAN [0x72] emptyValue]]
       [0x21, 0, 7, 0, 1, 1] 0 = Inl e)"
proof -
  let ?tt = "NTEntryValue (Some True) None None None None None None None"
  let ?ff = "NTEntryValue (Some False) None None None None None None None"
  let ?d = "V3RPCDefinition [0x66]
          [V3RPCParameter BOOLEAN [0x61] ?tt, V3RPCParameter BOOLEAN [0x62] ?tt]
          [V3RPCResult BOOLEAN [0x72] emptyValue]"
  let ?defs = "[(7::nat) \<mapsto> ?d]"
  let ?e1 = "[0x20, 0, 9, 0, 1, 0] :: Buffer"
  let ?e2 = "[0x20, 0, 7, 0, 1, 3, 1, 0, 1] :: Buffer"
  let ?e3 = "[0x20, 0, 7, 0, 1, 2, 1, 5] :: Buffer"
  let ?r1 = "[0x21, 0, 9, 0, 1, 0] :: Buffer"
  let ?r2 = "[0x21, 0, 7, 0, 1, 2, 1, 0] :: Buffer"
  let ?r3 = "[0x21, 0, 7, 0, 1, 1, 1] :: Buffer"
  let ?r4 = "[0x21, 0, 7, 0, 1, 1] :: Buffer"
  let ?m = "V3RPCExecuteMessage 7 1
         [V3RPCParameter BOOLEAN [0x61] ?tt, V3RPCParameter BOOLEAN [0x62] ?ff]"
  let ?mr = "V3RPCResponseMessage 7 1 [V3RPCResult BOOLEAN [0x72] ?tt]"
  have d9: "?defs 9 = None" and d7: "?defs 7 = Some ?d"
    by simp_all
  have e1: "checkBufferLength ?e1 0 6 = Inr ()" "checkMessageType ?e1 0 RPC_EXECUTE = Inr ()"
    "readUInt16BE ?e1 (0 + 1) = Inr 9"
    by code_simp+
  have e2: "checkBufferLength ?e2 0 6 = Inr ()" "checkMessageType ?e2 0 RPC_EXECUTE = Inr ()"
    "readUInt16BE ?e2 (0 + 1) = Inr 7" "fromUnsignedLEB128 ?e2 (0 + 5) = Inr (3, 6)"
    "3 \<noteq> length (parameters ?d)"
    by code_simp+
  have e3: "checkBufferLength ?e3 0 6 = Inr ()" "checkMessageType ?e3 0 RPC_EXECUTE = Inr ()"
    "readUInt16BE ?e3 (0 + 1) = Inr 7" "readUInt16BE ?e3 (0 + 3) = Inr 1"
    "fromUnsignedLEB128 ?e3 (0 + 5) = Inr (2, 6)" "2 = length (parameters ?d)"
    by code_simp+
  have v3: "entryValueFromBuffer 0 BOOLEAN ?e3 6 = Inr (?tt, 7)"
    "entryValueFromBuffer 0 BOOLEAN ?e3 7 = Inr (?ff, 8)"
    by code_simp+
  have x3: "\<exists>vs os. length vs = 2 \<and> length os = 2 + 1 \<and> os ! 0 = 6 \<and> os ! 2 = 8
      \<and> (\<forall>i < 2. entryValueFromBuffer 0 (p_type (parameters ?d ! i)) ?e3 (os ! i)
                    = Inr (vs ! i, os ! Suc i))
      \<and> ?m = V3RPCExecuteMessage 7 1
              (map2 (\<lambda>s v. V3RPCParameter (p_type s) (p_name s) v) (parameters ?d) vs)"
    using v3 by (intro exI [of _ "[?tt, ?ff]"] exI [of _ "[6, 7, 8]"])
      (simp add: less_2_cases_iff)
  have r1: "checkBufferLength ?r1 0 6 = Inr ()" "checkMessageType ?r1 0 RPC_RESPONSE = Inr ()"
    "readUInt16BE ?r1 (0 + 1) = Inr 9"
    by code_simp+
  have r2: "checkBufferLength ?r2 0 6 = Inr ()" "checkMessageType ?r2 0 RPC_RESPONSE = Inr ()"
    "readUInt16BE ?r2 (0 + 1) = Inr 7" "fromUnsignedLEB128 ?r2 (0 + 5) = Inr (2, 6)"
    "2 \<noteq> length (results ?d)"
    by code_simp+
  have r3: "checkBufferLength ?r3 0 6 = Inr ()" "checkMessageType ?r3 0 RPC_RESPONSE = Inr ()"
    "readUInt16BE ?r3 (0 + 1) = Inr 7" "readUInt16BE ?r3 (0 + 3) = Inr 1"
    "fromUnsignedLEB128 ?r3 (0 + 5) = Inr (1, 6)" "1 = length (results ?d)"
    by code_simp+
  have w3: "entryValueFromBuffer 0 BOOLEAN ?r3 6 = Inr (?tt, 7)"
    by code_simp
  have y3: "\<exists>vs os. length vs = 1 \<and> length os = 1 + 1 \<and> os ! 0 = 6 \<and> os ! 1 = 7
      \<and> (\<forall>i < 1. entryValueFromBuffer 0 (r_type (results ?d ! i)) ?r3 (os ! i)
                    = Inr (vs ! i, os ! Suc i))
      \<and> ?mr = V3RPCResponseMessage 7 1
              (map2 (\<lambda>s v. V3RPCResult (r_type s) (r_name s) v) (results ?d) vs)"
    using w3 by (intro exI [of _ "[?tt]"] exI [of _ "[6, 7]"]) simp
  have r4: "checkBufferLength ?r4 0 6 = Inr ()" "checkMessageType ?r4 0 RPC_RESPONSE = Inr ()"
    "readUInt16BE ?r4 (0 + 1) = Inr 7" "readUInt16BE ?r4 (0 + 3) = Inr 1"
    "fromUnsignedLEB128 ?r4 (0 + 5) = Inr (1, 6)" "1 = length (results ?d)"
    by code_simp+
  have w4: "entryValueFromBuffer 0 BOOLEAN ?r4 6 = Inl InvalidBufferLengthError"
    by code_simp
  have c1: "rpcExecuteMessageFromBuffer 0 ?defs ?e1 0 = Inl (Error ''No RPC definition found'')"
    using rpc_decoders_check_definition [where buf = ?e1 and offset = 0 and defId = 9
        and rpcDefinitions = ?defs and fuel = 0] e1 d9 by blast
  have c2: "rpcExecuteMessageFromBuffer 0 ?defs ?e2 0
            = Inl (Error ''Mismatch in RPC parameter counts'')"
    using rpc_decoders_check_definition [where buf = ?e2 and offset = 0 and defId = 7
        and rpcDefinitions = ?defs and fuel = 0 and d = ?d and n = 3 and off = 6] e2 d7 by blast
  have c3: "rpcExecuteMessageFromBuffer 0 ?defs ?e3 0 = Inr (?m, 8)"
    using rpc_decoders_check_definition [where buf = ?e3 and offset = 0 and defId = 7
        and uid = 1 and rpcDefinitions = ?defs and fuel = 0 and d = ?d and n = 2 and off = 6
        and m = ?m and off' = 8] e3 d7 x3 by blast
  have c4: "rpcResponseMessageFromBuffer 0 ?defs ?r1 0 = Inl (Error ''No RPC definition found'')"
    using rpc_decoders_check_definition [where buf = ?r1 and offset = 0 and defId = 9
        and rpcDefinitions = ?defs and fuel = 0] r1 d9 by blast
  have c5: "rpcResponseMessageFromBuffer 0 ?defs ?r2 0
            = Inl (Error ''Mismatch in RPC result counts'')"
    using rpc_decoders_check_definition [where buf = ?r2 and offset = 0 and defId = 7
        and rpcDefinitions = ?defs and fuel = 0 and d = ?d and n = 2 and off = 6] r2 d7 by blast
  have c6: "rpcResponseMessageFromBuffer 0 ?defs ?r3 0 = Inr (?mr, 7)"
    using rpc_decoders_check_definition [where buf = ?r3 and offset = 0 and defId = 7
        and uid = 1 and rpcDefinitions = ?defs and fuel = 0 and d = ?d and n = 1 and off = 6
        and m = ?mr and off' = 7] r3 d7 y3 by blast
  have "rpcResponseMessageFromBuffer 0 ?defs ?r4 0 \<noteq> Inr (m, off')" for m off'
  proof
    assume "rpcResponseMessageFromBuffer 0 ?defs ?r4 0 = Inr (m, off')"
    with rpc_decoders_check_definition [where buf = ?r4 and offset = 0 and defId = 7
        and uid = 1 and rpcDefinitions = ?defs and fuel = 0 and d = ?d and n = 1 and off = 6
        and m = m and off' = off'] r4 d7
    obtain vs os where "os ! 0 = 6"
      and "\<forall>i < 1. entryValueFromBuffer 0 (r_type (results ?d ! i)) ?r4 (os ! i)
                    = Inr (vs ! i, os ! Suc i)"
      by blast
    then have "entryValueFromBuffer 0 BOOLEAN ?r4 6 = Inr (vs ! 0, os ! Suc 0)"
      by simp
    with w4 show False by simp
  qed
  then have c7: "\<exists>e. rpcResponseMessageFromBuffer 0 ?defs ?r4 0 = Inl e"
    by (cases "rpcResponseMessageFromBuffer 0 ?defs ?r4 0") auto
  show ?thesis
    by (intro conjI c1 c2 c3 c4 c5 c6 c7)
qed

section \<open>The length prefix of an RPC entry value\<close>

text \<open>
  C3.  For every RPC definition, those whose serialized form is 128 bytes or longer
  included, \<open>entryValueToBuffer\<close> for an RPC-typed value is to emit the serialized definition
  after its byte length as an unsigned LEB128 integer, which is how \<open>entryValueFromBuffer\<close>
  reads the length back.  The code writes one byte, \<open>Buffer.from([encodedRpcBuf.length])\<close>:
  for the definition named by 124 letters \<open>a\<close>, without parameters or results, whose
  serialized form has 128 bytes, the prefix written is the single byte 0x80 where LEB128 is
  0x80 0x01, and \<open>entryValueFromBuffer\<close> fails on the buffer that \<open>entryValueToBuffer\<close>
  produced.
\<close>

theorem rpc_value_length_prefix_one_byte:
  "encodeRPCDefinition (V3RPCDefinition (replicate 124 0x61) [] [])
     = Inr (1 # 124 # replicate 124 0x61 @ [0, 0])
   \<and> length (1 # 124 # replicate 124 (0x61 :: byte) @ [0, 0]) = 128
   \<and> entryValueToBuffer RPC
       (NTEntryValue None None None None None None None
          (Some (V3RPCDefinition (replicate 124 0x61) [] [])))
     = Inr (0x80 # 1 # 124 # replicate 124 0x61 @ [0, 0])
   \<and> toUnsignedLEB128 128 @ (1 # 124 # replicate 124 0x61 @ [0, 0])
     = 0x80 # 0x01 # 1 # 124 # replicate 124 0x61 @ [0, 0]
   \<and> (\<forall>fuel. entryValueFromBuffer fuel RPC (0x80 # 1 # 124 # replicate 124 0x61 @ [0, 0]) 0
        = Inl InvalidBufferLengthError)"
proof -
  let ?d = "V3RPCDefinition (replicate 124 0x61) [] []"
  let ?e = "1 # 124 # replicate 124 0x61 @ [0, 0] :: Buffer"
  have A: "encodeRPCDefinition ?d = Inr ?e"
    by (simp add: encodeLEB128String_def toUnsignedLEB128.simps byteOfNumber_def)
  have B: "length ?e = 128"
    by simp
  have C: "entryValueToBuffer RPC (NTEntryValue None None None None None None None (Some ?d))
           = Inr (0x80 # ?e)"
    by (simp add: checkEntryValue_def encodeLEB128String_def toUnsignedLEB128.simps
        byteOfNumber_def)
  have D: "toUnsignedLEB128 128 @ ?e = 0x80 # 0x01 # ?e"
    by (simp add: toUnsignedLEB128.simps)
  have leb: "fromUnsignedLEB128 (0x80 # ?e) 0 = Inr (128, 2)"
    by (simp add: fromUnsignedLEB128_def)
  have chk: "checkBufferLength (0x80 # ?e) 2 128 = Inl InvalidBufferLengthError"
    by (simp add: checkBufferLength_def)
  have E: "entryValueFromBuffer fuel RPC (0x80 # ?e) 0 = Inl InvalidBufferLengthError" for fuel
    by (simp add: entryValueFromBuffer.simps leb chk)
  from A B C D E show ?thesis by blast
qed

section \<open>Decoding what the encoders produce\<close>

declare entryValueToBuffer.simps [simp del] encodeRPCDefinition.simps [simp del]
  encodeRPCParameterSpec.simps [simp del] roundtripValue.simps [simp del]

subsection \<open>Positions in a buffer\<close>

lemma drop_next: "drop off buf = a @ b \<Longrightarrow> drop (off + length a) buf = b"
  by (metis add.commute append_eq_conv_conj drop_drop)

lemma drop_bound: "drop off buf = a @ b \<Longrightarrow> a \<noteq> [] \<Longrightarrow> off + length a + length b = length buf"
proof -
  assume d: "drop off buf = a @ b" and "a \<noteq> []"
  then have "length buf - off = length a + length b" "length a \<noteq> 0"
    by (metis length_drop length_append) (simp add: \<open>a \<noteq> []\<close>)
  then show ?thesis by linarith
qed

lemma drop_short: "drop off buf = p \<Longrightarrow> length buf \<le> off + length p"
  by auto

lemma byteAt_drop: "drop off buf = b # rest \<Longrightarrow> byteAt buf off = Some b"
  by (metis byteAt_def drop_eq_Nil2 leI list.distinct(1) nth_via_drop)

lemma byteAt_drop_Nil: "drop off buf = [] \<Longrightarrow> byteAt buf off = None"
  by (simp add: byteAt_def)

lemma strict_prefix_append:
  "strict_prefix p (a @ b) \<Longrightarrow> strict_prefix p a \<or> (\<exists>us. p = a @ us \<and> strict_prefix us b)"
  by (auto simp: strict_prefix_def prefix_append)

subsection \<open>LEB128\<close>

lemma unat_byte_of_nat: "n < 256 \<Longrightarrow> unat (of_nat n :: byte) = n"
  by (simp add: unat_of_nat)

lemma toUnsignedLEB128_small: "n < 128 \<Longrightarrow> toUnsignedLEB128 n = [of_nat n]"
  by (simp add: toUnsignedLEB128.simps)

lemma toUnsignedLEB128_nonempty: "toUnsignedLEB128 n \<noteq> []"
  by (subst toUnsignedLEB128.simps) simp

lemma leb128_groups_toUnsignedLEB128:
  "leb128_groups (toUnsignedLEB128 n @ rest) = Some (n, length (toUnsignedLEB128 n))"
proof (induction n rule: toUnsignedLEB128.induct)
  case (1 n)
  show ?case
  proof (cases "n < 128")
    case True
    then show ?thesis by (simp add: toUnsignedLEB128_small unat_byte_of_nat)
  next
    case False
    define c :: byte where "c = of_nat (n mod 128 + 128)"
    have m: "n mod 128 + 128 < 256" by simp
    have u: "unat c = n mod 128 + 128"
      unfolding c_def using m by (rule unat_byte_of_nat)
    have e: "toUnsignedLEB128 n = c # toUnsignedLEB128 (n div 128)"
      unfolding c_def using False by (subst toUnsignedLEB128.simps) simp
    from "1.IH" [OF False] show ?thesis
      by (simp add: e u)
  qed
qed

lemma leb128_groups_truncated:
  "strict_prefix p (toUnsignedLEB128 n) \<Longrightarrow> leb128_groups p = None"
proof (induction n arbitrary: p rule: toUnsignedLEB128.induct)
  case (1 n)
  show ?case
  proof (cases "n < 128")
    case True
    with "1.prems" have "p = []"
      by (cases p) (auto simp: toUnsignedLEB128_small)
    then show ?thesis by simp
  next
    case False
    define c :: byte where "c = of_nat (n mod 128 + 128)"
    have m: "n mod 128 + 128 < 256" by simp
    have u: "unat c = n mod 128 + 128"
      unfolding c_def using m by (rule unat_byte_of_nat)
    have e: "toUnsignedLEB128 n = c # toUnsignedLEB128 (n div 128)"
      unfolding c_def using False by (subst toUnsignedLEB128.simps) simp
    show ?thesis
    proof (cases p)
      case Nil
      then show ?thesis by simp
    next
      case (Cons b q)
      with "1.prems" e have b: "b = c"
        and q: "strict_prefix q (toUnsignedLEB128 (n div 128))"
        by auto
      from "1.IH" [OF False q] Cons b u show ?thesis by simp
    qed
  qed
qed

lemma fromUnsignedLEB128_rt:
  "drop off buf = toUnsignedLEB128 n @ rest \<Longrightarrow>
   fromUnsignedLEB128 buf off = Inr (n, off + length (toUnsignedLEB128 n))"
  by (simp add: fromUnsignedLEB128_def leb128_groups_toUnsignedLEB128)

lemma fromUnsignedLEB128_truncated:
  "drop off buf = p \<Longrightarrow> strict_prefix p (toUnsignedLEB128 n) \<Longrightarrow>
   fromUnsignedLEB128 buf off = Inl InvalidBufferLengthError"
  by (simp add: fromUnsignedLEB128_def leb128_groups_truncated)

lemma encodeLEB128String_nonempty: "encodeLEB128String s \<noteq> []"
  by (simp add: encodeLEB128String_def toUnsignedLEB128_nonempty)

lemma decodeLEB128String_rt:
  assumes "drop off buf = encodeLEB128String s @ rest"
  shows "decodeLEB128String buf off = Inr (s, off + length (encodeLEB128String s))"
proof -
  let ?l = "toUnsignedLEB128 (length s)"
  from assms have d: "drop off buf = ?l @ s @ rest"
    by (simp add: encodeLEB128String_def)
  have l: "fromUnsignedLEB128 buf off = Inr (length s, off + length ?l)"
    using d by (rule fromUnsignedLEB128_rt)
  have d2: "drop (off + length ?l) buf = s @ rest"
    using d by (rule drop_next)
  have len: "off + length ?l + length (s @ rest) = length buf"
    using d toUnsignedLEB128_nonempty by (rule drop_bound)
  show ?thesis
    using len by (simp add: decodeLEB128String_def l d2 encodeLEB128String_def)
qed

lemma decodeLEB128String_truncated:
  assumes "drop off buf = p" and "strict_prefix p (encodeLEB128String s)"
  shows "decodeLEB128String buf off = Inl InvalidBufferLengthError"
proof -
  let ?l = "toUnsignedLEB128 (length s)"
  from assms(2) have "strict_prefix p (?l @ s)"
    by (simp add: encodeLEB128String_def)
  then consider "strict_prefix p ?l" | us where "p = ?l @ us" "strict_prefix us s"
    using strict_prefix_append by blast
  then show ?thesis
  proof cases
    case 1
    with assms(1) show ?thesis
      by (simp add: decodeLEB128String_def fromUnsignedLEB128_truncated)
  next
    case 2
    with assms(1) have d: "drop off buf = ?l @ us" by simp
    have l: "fromUnsignedLEB128 buf off = Inr (length s, off + length ?l)"
      using d by (rule fromUnsignedLEB128_rt)
    have "length buf \<le> off + length (?l @ us)"
      using d by (rule drop_short)
    moreover have "length us < length s"
      using 2(2) by (metis prefix_length_less)
    ultimately have "length buf < off + length ?l + length s" by simp
    then show ?thesis
      by (simp add: decodeLEB128String_def l)
  qed
qed

subsection \<open>Fixed-width fields\<close>

lemma writeUInt16BE_length: "writeUInt16BE v = Inr bs \<Longrightarrow> length bs = 2"
  by (auto simp: writeUInt16BE_def split: if_splits)

lemma readUInt16BE_rt:
  assumes "writeUInt16BE v = Inr bs" and "drop off buf = bs @ rest"
  shows "readUInt16BE buf off = Inr v"
proof -
  from assms(1) have v: "v < 65536" and bs: "bs = [of_nat (v div 256), of_nat (v mod 256)]"
    by (auto simp: writeUInt16BE_def split: if_splits)
  define hi :: byte where "hi = of_nat (v div 256)"
  define lo :: byte where "lo = of_nat (v mod 256)"
  from v have "v div 256 < 256" by simp
  then have hi: "unat hi = v div 256"
    unfolding hi_def by (rule unat_byte_of_nat)
  have lo: "unat lo = v mod 256"
    unfolding lo_def by (rule unat_byte_of_nat) simp
  from assms(2) bs have d: "drop off buf = [hi, lo] @ rest"
    by (simp add: hi_def lo_def)
  then have d0: "drop off buf = hi # lo # rest" by simp
  have d1: "drop (off + 1) buf = lo # rest"
    using drop_next [of off buf "[hi]" "lo # rest"] d0 by simp
  have len: "off + length [hi, lo] + length rest = length buf"
    using d by (rule drop_bound) simp
  have "buf ! off = hi" using d0 by (rule nth_via_drop)
  moreover have "buf ! (off + 1) = lo" using d1 by (rule nth_via_drop)
  ultimately show ?thesis
    using len hi lo by (simp add: readUInt16BE_def)
qed

lemma readUInt16BE_short: "length buf < off + 2 \<Longrightarrow> readUInt16BE buf off = Inl RangeError"
  by (simp add: readUInt16BE_def)

lemma readUInt8_rt:
  assumes "n < 256" and "drop off buf = byteOfNumber n # rest"
  shows "readUInt8 buf off = Inr n"
proof -
  have "buf ! off = byteOfNumber n" using assms(2) by (rule nth_via_drop)
  moreover have "off + length [byteOfNumber n] + length rest = length buf"
    using drop_bound [of off buf "[byteOfNumber n]" rest] assms(2) by simp
  ultimately show ?thesis
    using assms(1) by (simp add: readUInt8_def unat_byteOfNumber)
qed

lemma byteOfNumber_small: "n < 128 \<Longrightarrow> toUnsignedLEB128 n = [byteOfNumber n]"
  by (simp add: toUnsignedLEB128_small byteOfNumber_def)

lemma byte_chunk_bit:
  "bit (push_bit k (ucast (ucast (drop_bit k (x :: 64 word)) :: 8 word)) :: 64 word) n
     \<longleftrightarrow> k \<le> n \<and> n < k + 8 \<and> bit x n"
  by (auto simp: bit_simps dest: bit_imp_le_length)

lemma word64_of_bytes:
  "push_bit 56 (ucast (ucast (drop_bit 56 (x :: 64 word)) :: 8 word))
   OR push_bit 48 (ucast (ucast (drop_bit 48 x) :: 8 word))
   OR push_bit 40 (ucast (ucast (drop_bit 40 x) :: 8 word))
   OR push_bit 32 (ucast (ucast (drop_bit 32 x) :: 8 word))
   OR push_bit 24 (ucast (ucast (drop_bit 24 x) :: 8 word))
   OR push_bit 16 (ucast (ucast (drop_bit 16 x) :: 8 word))
   OR push_bit 8 (ucast (ucast (drop_bit 8 x) :: 8 word))
   OR (ucast (ucast x :: 8 word)) = x"
proof (rule bit_word_eqI)
  fix n assume n: "n < LENGTH(64)"
  have z: "bit (ucast (ucast x :: 8 word) :: 64 word) n \<longleftrightarrow> n < 8 \<and> bit x n"
    using byte_chunk_bit [of 0 x n] by simp
  from n have n64: "n < 64" by simp
  note c = byte_chunk_bit [of 56 x n] byte_chunk_bit [of 48 x n] byte_chunk_bit [of 40 x n] byte_chunk_bit [of 32 x n]
      byte_chunk_bit [of 24 x n] byte_chunk_bit [of 16 x n] byte_chunk_bit [of 8 x n] z
  have "(56 \<le> n \<and> n < 56 + 8) \<or> (48 \<le> n \<and> n < 48 + 8) \<or> (40 \<le> n \<and> n < 40 + 8)
      \<or> (32 \<le> n \<and> n < 32 + 8) \<or> (24 \<le> n \<and> n < 24 + 8) \<or> (16 \<le> n \<and> n < 16 + 8)
      \<or> (8 \<le> n \<and> n < 8 + 8) \<or> n < 8"
    using n64 by arith
  then show "bit ((push_bit 56 (ucast (ucast (drop_bit 56 (x :: 64 word)) :: 8 word)) :: 64 word)
   OR push_bit 48 (ucast (ucast (drop_bit 48 x) :: 8 word))
   OR push_bit 40 (ucast (ucast (drop_bit 40 x) :: 8 word))
   OR push_bit 32 (ucast (ucast (drop_bit 32 x) :: 8 word))
   OR push_bit 24 (ucast (ucast (drop_bit 24 x) :: 8 word))
   OR push_bit 16 (ucast (ucast (drop_bit 16 x) :: 8 word))
   OR push_bit 8 (ucast (ucast (drop_bit 8 x) :: 8 word))
   OR (ucast (ucast x :: 8 word))) n = bit x n"
    unfolding bit_or_iff c by blast
qed

lemma be_word_ieee754_write: "be_word (ieee754_write x) = x"
  using word64_of_bytes [of x] by (simp add: ieee754_write_def)

lemma ieee754_read_rt:
  assumes "drop off buf = ieee754_write x @ rest"
  shows "ieee754_read buf off = x"
  using assms by (simp add: ieee754_read_def length_ieee754_write be_word_ieee754_write)

subsection \<open>Entry values other than RPC definitions\<close>

lemma roundtripValue_cases:
  assumes "roundtripValue t v"
  obtains
    (BOOLEAN) b where "t = BOOLEAN" "v = NTEntryValue (Some b) None None None None None None None"
  | (DOUBLE) d where "t = DOUBLE" "v = NTEntryValue None (Some d) None None None None None None"
  | (STRING) s where "t = STRING" "v = NTEntryValue None None (Some s) None None None None None"
  | (RAW) r where "t = RAW" "v = NTEntryValue None None None (Some r) None None None None"
  | (BOOLEAN_ARRAY) bs where "t = BOOLEAN_ARRAY" "length bs \<le> 255"
      "v = NTEntryValue None None None None (Some bs) None None None"
  | (DOUBLE_ARRAY) ds where "t = DOUBLE_ARRAY" "length ds \<le> 255"
      "v = NTEntryValue None None None None None (Some ds) None None"
  | (STRING_ARRAY) ss where "t = STRING_ARRAY" "length ss \<le> 255"
      "v = NTEntryValue None None None None None None (Some ss) None"
  | (RPC) d e where "t = RPC" "v = NTEntryValue None None None None None None None (Some d)"
      "roundtripDefinition d" "encodeRPCDefinition d = Inr e" "length e < 128"
proof (cases v)
  case (NTEntryValue x1 x2 x3 x4 x5 x6 x7 x8)
  with assms show ?thesis
    by (simp add: roundtripValue.simps split: if_splits)
       (use that in \<open>auto split: option.splits sum.splits\<close>)
qed

lemma entryValueToBuffer_BOOLEAN:
  "entryValueToBuffer BOOLEAN (NTEntryValue (Some b) None None None None None None None)
   = Inr [if b then 1 else 0]"
  by (simp add: entryValueToBuffer.simps checkEntryValue_def)

lemma entryValueToBuffer_DOUBLE:
  "entryValueToBuffer DOUBLE (NTEntryValue None (Some d) None None None None None None)
   = Inr (ieee754_write d)"
  by (simp add: entryValueToBuffer.simps checkEntryValue_def)

lemma entryValueToBuffer_STRING:
  "entryValueToBuffer STRING (NTEntryValue None None (Some s) None None None None None)
   = Inr (encodeLEB128String s)"
  by (simp add: entryValueToBuffer.simps checkEntryValue_def)

lemma entryValueToBuffer_RAW:
  "entryValueToBuffer RAW (NTEntryValue None None None (Some r) None None None None)
   = Inr (toUnsignedLEB128 (length r) @ r)"
  by (simp add: entryValueToBuffer.simps checkEntryValue_def)

lemma entryValueToBuffer_BOOLEAN_ARRAY:
  "entryValueToBuffer BOOLEAN_ARRAY (NTEntryValue None None None None (Some bs) None None None)
   = Inr (byteOfNumber (length bs) # map (\<lambda>val. if val then 1 else 0) bs)"
  by (simp add: entryValueToBuffer.simps checkEntryValue_def)

lemma entryValueToBuffer_DOUBLE_ARRAY:
  "entryValueToBuffer DOUBLE_ARRAY (NTEntryValue None None None None None (Some ds) None None)
   = Inr (byteOfNumber (length ds) # concat (map ieee754_write ds))"
  by (simp add: entryValueToBuffer.simps checkEntryValue_def)

lemma entryValueToBuffer_STRING_ARRAY:
  "entryValueToBuffer STRING_ARRAY (NTEntryValue None None None None None None (Some ss) None)
   = Inr (byteOfNumber (length ss) # concat (map encodeLEB128String ss))"
  by (simp add: entryValueToBuffer.simps checkEntryValue_def)

lemma entryValueToBuffer_RPC:
  "entryValueToBuffer RPC (NTEntryValue None None None None None None None (Some d))
   = (case encodeRPCDefinition d of
        Inl e \<Rightarrow> Inl e
      | Inr encodedRpcBuf \<Rightarrow> Inr (byteOfNumber (length encodedRpcBuf) # encodedRpcBuf))"
  by (simp add: entryValueToBuffer.simps checkEntryValue_def split: sum.splits)

lemma entryValueFromBuffer_BOOLEAN:
  "entryValueFromBuffer fuel BOOLEAN buf offset =
     (case checkBufferLength buf offset 1 of
        Inl e \<Rightarrow> Inl e
      | Inr _ \<Rightarrow>
          Inr (NTEntryValue (Some (byteAt buf offset = Some 1)) None None None None None None
                 None, offset + 1))"
  by (simp add: entryValueFromBuffer.simps)

lemma entryValueFromBuffer_DOUBLE:
  "entryValueFromBuffer fuel DOUBLE buf offset =
     (case checkBufferLength buf offset 8 of
        Inl e \<Rightarrow> Inl e
      | Inr _ \<Rightarrow>
          Inr (NTEntryValue None (Some (ieee754_read buf offset)) None None None None None
                 None, offset + 8))"
  by (simp add: entryValueFromBuffer.simps)

lemma entryValueFromBuffer_STRING:
  "entryValueFromBuffer fuel STRING buf offset =
     (case decodeLEB128String buf offset of
        Inl e \<Rightarrow> Inl e
      | Inr (strResult, off) \<Rightarrow>
          Inr (NTEntryValue None None (Some strResult) None None None None None, off))"
  by (simp add: entryValueFromBuffer.simps)

lemma entryValueFromBuffer_RAW:
  "entryValueFromBuffer fuel RAW buf offset =
     (case fromUnsignedLEB128 buf offset of
        Inl e \<Rightarrow> Inl e
      | Inr (dataLen, off) \<Rightarrow>
          (case checkBufferLength buf off dataLen of
             Inl e \<Rightarrow> Inl e
           | Inr _ \<Rightarrow>
               Inr (NTEntryValue None None None (Some (take dataLen (drop off buf))) None None
                      None None, off + dataLen)))"
  by (simp add: entryValueFromBuffer.simps)

lemma entryValueFromBuffer_BOOLEAN_ARRAY:
  "entryValueFromBuffer fuel BOOLEAN_ARRAY buf offset =
     (case readUInt8 buf offset of
        Inl e \<Rightarrow> Inl e
      | Inr numElems \<Rightarrow>
          (case checkBufferLength buf (offset + 1) numElems of
             Inl e \<Rightarrow> Inl e
           | Inr _ \<Rightarrow>
               (case boolArrayLoop numElems buf (offset + 1) of
                  (boolArray, bufOffset) \<Rightarrow>
                    Inr (NTEntryValue None None None None (Some boolArray) None None None,
                         bufOffset))))"
  by (simp add: entryValueFromBuffer.simps)

lemma entryValueFromBuffer_DOUBLE_ARRAY:
  "entryValueFromBuffer fuel DOUBLE_ARRAY buf offset =
     (case readUInt8 buf offset of
        Inl e \<Rightarrow> Inl e
      | Inr numElems \<Rightarrow>
          (case checkBufferLength buf (offset + 1) (numElems * 8) of
             Inl e \<Rightarrow> Inl e
           | Inr _ \<Rightarrow>
               (case doubleArrayLoop numElems buf (offset + 1) of
                  (doubleArray, bufOffset) \<Rightarrow>
                    Inr (NTEntryValue None None None None None (Some doubleArray) None None,
                         bufOffset))))"
  by (simp add: entryValueFromBuffer.simps)

lemma entryValueFromBuffer_STRING_ARRAY:
  "entryValueFromBuffer fuel STRING_ARRAY buf offset =
     (case readUInt8 buf offset of
        Inl e \<Rightarrow> Inl e
      | Inr numElems \<Rightarrow>
          (case checkBufferLength buf (offset + 1) numElems of
             Inl e \<Rightarrow> Inl e
           | Inr _ \<Rightarrow>
               (case strArrayLoop numElems buf (offset + 1) of
                  Inl e \<Rightarrow> Inl e
                | Inr (strArray, bufOffset) \<Rightarrow>
                    Inr (NTEntryValue None None None None None None (Some strArray) None,
                         bufOffset))))"
  by (simp add: entryValueFromBuffer.simps)

lemma entryValueFromBuffer_RPC:
  "entryValueFromBuffer fuel RPC buf offset =
     (case fromUnsignedLEB128 buf offset of
        Inl e \<Rightarrow> Inl e
      | Inr (bufLen, off) \<Rightarrow>
          (case checkBufferLength buf off bufLen of
             Inl e \<Rightarrow> Inl e
           | Inr _ \<Rightarrow>
               (case fuel of
                  0 \<Rightarrow> Inl OutOfFuel
                | Suc fuel' \<Rightarrow>
                    (case decodeRPCDefinition fuel' buf off of
                       Inl e \<Rightarrow> Inl e
                     | Inr (rpcDefinition, newOffset) \<Rightarrow>
                         Inr (NTEntryValue None None None None None None None
                                (Some rpcDefinition), newOffset)))))"
  by (simp add: entryValueFromBuffer.simps)

lemma checkBufferLength_ok: "off + n \<le> length buf \<Longrightarrow> checkBufferLength buf off n = Inr ()"
  by (simp add: checkBufferLength_def)

lemma checkBufferLength_short:
  "length buf < off + n \<Longrightarrow> checkBufferLength buf off n = Inl InvalidBufferLengthError"
  by (simp add: checkBufferLength_def)

lemma doubleArrayLoop_rt:
  "drop off buf = concat (map ieee754_write ds) @ rest \<Longrightarrow>
   doubleArrayLoop (length ds) buf off = (ds, off + 8 * length ds)"
proof (induction ds arbitrary: off)
  case Nil
  then show ?case by simp
next
  case (Cons d ds)
  from Cons.prems have d: "drop off buf = ieee754_write d @ concat (map ieee754_write ds) @ rest"
    by simp
  have r: "ieee754_read buf off = d"
    using d by (rule ieee754_read_rt)
  have "drop (off + length (ieee754_write d)) buf = concat (map ieee754_write ds) @ rest"
    using d by (rule drop_next)
  then have "drop (off + 8) buf = concat (map ieee754_write ds) @ rest"
    by (simp add: length_ieee754_write)
  from Cons.IH [OF this] r show ?case by simp
qed

lemma strArrayLoop_rt:
  "drop off buf = concat (map encodeLEB128String ss) @ rest \<Longrightarrow>
   strArrayLoop (length ss) buf off
   = Inr (ss, off + length (concat (map encodeLEB128String ss)))"
proof (induction ss arbitrary: off)
  case Nil
  then show ?case by simp
next
  case (Cons s ss)
  let ?e = "encodeLEB128String s"
  from Cons.prems have d: "drop off buf = ?e @ concat (map encodeLEB128String ss) @ rest"
    by simp
  have r: "decodeLEB128String buf off = Inr (s, off + length ?e)"
    using d by (rule decodeLEB128String_rt)
  have "drop (off + length ?e) buf = concat (map encodeLEB128String ss) @ rest"
    using d by (rule drop_next)
  from Cons.IH [OF this] r show ?case by (simp add: add.assoc)
qed

lemma strArrayLoop_truncated:
  "drop off buf = p \<Longrightarrow> strict_prefix p (concat (map encodeLEB128String ss)) \<Longrightarrow>
   strArrayLoop (length ss) buf off = Inl InvalidBufferLengthError"
proof (induction ss arbitrary: off p)
  case Nil
  then show ?case by simp
next
  case (Cons s ss)
  let ?e = "encodeLEB128String s"
  from Cons.prems(2) have "strict_prefix p (?e @ concat (map encodeLEB128String ss))"
    by simp
  then consider "strict_prefix p ?e"
    | us where "p = ?e @ us" "strict_prefix us (concat (map encodeLEB128String ss))"
    using strict_prefix_append by blast
  then show ?case
  proof cases
    case 1
    with Cons.prems(1) show ?thesis
      by (simp add: decodeLEB128String_truncated)
  next
    case 2
    with Cons.prems(1) have d: "drop off buf = ?e @ us" by simp
    have r: "decodeLEB128String buf off = Inr (s, off + length ?e)"
      using d by (rule decodeLEB128String_rt)
    have "drop (off + length ?e) buf = us"
      using d by (rule drop_next)
    from Cons.IH [OF this 2(2)] r show ?thesis by simp
  qed
qed

lemma length_concat_strings:
  "length ss \<le> length (concat (map encodeLEB128String ss))"
proof (induction ss)
  case Nil
  then show ?case by simp
next
  case (Cons s ss)
  have "1 \<le> length (encodeLEB128String s)"
    using encodeLEB128String_nonempty [of s] by (cases "encodeLEB128String s") simp_all
  with Cons show ?case by simp
qed

lemma bool_byte_eq_1: "((if b then 1 else 0 :: byte) = 1) = b"
  by simp

lemma map_bool_bytes: "map (\<lambda>b. b = 1) (map (\<lambda>val. if val then 1 else 0 :: byte) bs) = bs"
  by (induction bs) simp_all

lemma value_rt_BOOLEAN:
  assumes "drop off buf = [if b then 1 else 0] @ rest"
  shows "entryValueFromBuffer fuel BOOLEAN buf off
         = Inr (NTEntryValue (Some b) None None None None None None None, off + 1)"
proof -
  have len: "off + length [if b then 1 else 0 :: byte] + length rest = length buf"
    using assms by (rule drop_bound) simp
  have "byteAt buf off = Some (if b then 1 else 0)"
    using assms by (simp add: byteAt_drop)
  moreover have "checkBufferLength buf off 1 = Inr ()"
    using len by (simp add: checkBufferLength_def)
  ultimately show ?thesis
    by (simp add: entryValueFromBuffer_BOOLEAN)
qed

lemma value_rt_DOUBLE:
  assumes "drop off buf = ieee754_write d @ rest"
  shows "entryValueFromBuffer fuel DOUBLE buf off
         = Inr (NTEntryValue None (Some d) None None None None None None, off + 8)"
proof -
  have "off + length (ieee754_write d) + length rest = length buf"
    using assms by (rule drop_bound) (simp add: ieee754_write_def)
  then have "checkBufferLength buf off 8 = Inr ()"
    by (simp add: checkBufferLength_def length_ieee754_write)
  moreover have "ieee754_read buf off = d"
    using assms by (rule ieee754_read_rt)
  ultimately show ?thesis
    by (simp add: entryValueFromBuffer_DOUBLE)
qed

lemma value_rt_STRING:
  assumes "drop off buf = encodeLEB128String s @ rest"
  shows "entryValueFromBuffer fuel STRING buf off
         = Inr (NTEntryValue None None (Some s) None None None None None,
                off + length (encodeLEB128String s))"
  by (simp add: entryValueFromBuffer_STRING decodeLEB128String_rt [OF assms])

lemma value_rt_RAW:
  assumes "drop off buf = (toUnsignedLEB128 (length r) @ r) @ rest"
  shows "entryValueFromBuffer fuel RAW buf off
         = Inr (NTEntryValue None None None (Some r) None None None None,
                off + length (toUnsignedLEB128 (length r) @ r))"
proof -
  let ?l = "toUnsignedLEB128 (length r)"
  from assms have d: "drop off buf = ?l @ r @ rest" by simp
  have l: "fromUnsignedLEB128 buf off = Inr (length r, off + length ?l)"
    using d by (rule fromUnsignedLEB128_rt)
  have d2: "drop (off + length ?l) buf = r @ rest"
    using d by (rule drop_next)
  have len: "off + length ?l + length (r @ rest) = length buf"
    using d toUnsignedLEB128_nonempty by (rule drop_bound)
  then have "checkBufferLength buf (off + length ?l) (length r) = Inr ()"
    by (simp add: checkBufferLength_def)
  then show ?thesis
    by (simp add: entryValueFromBuffer_RAW l d2 add.assoc)
qed

lemma value_rt_BOOLEAN_ARRAY:
  assumes "length bs \<le> 255"
    and "drop off buf = (byteOfNumber (length bs) # map (\<lambda>val. if val then 1 else 0) bs) @ rest"
  shows "entryValueFromBuffer fuel BOOLEAN_ARRAY buf off
         = Inr (NTEntryValue None None None None (Some bs) None None None,
                off + length (byteOfNumber (length bs) # map (\<lambda>val. if val then 1 else 0 :: byte) bs))"
proof -
  let ?m = "map (\<lambda>val. if val then 1 else 0 :: byte) bs"
  from assms(2) have d: "drop off buf = byteOfNumber (length bs) # ?m @ rest" by simp
  have n: "readUInt8 buf off = Inr (length bs)"
    using assms(1) d by (intro readUInt8_rt) simp_all
  have d1: "drop (off + 1) buf = ?m @ rest"
    using drop_next [of off buf "[byteOfNumber (length bs)]" "?m @ rest"] d by simp
  have len: "off + length [byteOfNumber (length bs)] + length (?m @ rest) = length buf"
    using drop_bound [of off buf "[byteOfNumber (length bs)]" "?m @ rest"] d by simp
  then have le: "off + 1 + length bs \<le> length buf" by simp
  then have c: "checkBufferLength buf (off + 1) (length bs) = Inr ()"
    by (rule checkBufferLength_ok)
  have "map (\<lambda>i. byteAt buf (off + 1 + i) = Some 1) [0..<length bs]
        = map (\<lambda>b. Some b = Some 1) (take (length bs) (drop (off + 1) buf))"
    using le by (rule map_byteAt_take_drop)
  also have "\<dots> = bs"
    using d1 map_bool_bytes [of bs] by simp
  finally have "boolArrayLoop (length bs) buf (off + 1) = (bs, off + 1 + length bs)"
    by (simp add: boolArrayLoop_eq)
  with n c show ?thesis
    by (simp add: entryValueFromBuffer_BOOLEAN_ARRAY)
qed

lemma value_rt_DOUBLE_ARRAY:
  assumes "length ds \<le> 255"
    and "drop off buf = (byteOfNumber (length ds) # concat (map ieee754_write ds)) @ rest"
  shows "entryValueFromBuffer fuel DOUBLE_ARRAY buf off
         = Inr (NTEntryValue None None None None None (Some ds) None None,
                off + length (byteOfNumber (length ds) # concat (map ieee754_write ds)))"
proof -
  let ?m = "concat (map ieee754_write ds)"
  from assms(2) have d: "drop off buf = byteOfNumber (length ds) # ?m @ rest" by simp
  have n: "readUInt8 buf off = Inr (length ds)"
    using assms(1) d by (intro readUInt8_rt) simp_all
  have d1: "drop (off + 1) buf = ?m @ rest"
    using drop_next [of off buf "[byteOfNumber (length ds)]" "?m @ rest"] d by simp
  have len: "off + length [byteOfNumber (length ds)] + length (?m @ rest) = length buf"
    using drop_bound [of off buf "[byteOfNumber (length ds)]" "?m @ rest"] d by simp
  then have "off + 1 + length ds * 8 \<le> length buf"
    by (simp add: length_concat_ieee754)
  then have c: "checkBufferLength buf (off + 1) (length ds * 8) = Inr ()"
    by (rule checkBufferLength_ok)
  have "doubleArrayLoop (length ds) buf (off + 1) = (ds, off + 1 + 8 * length ds)"
    using d1 by (rule doubleArrayLoop_rt)
  with n c show ?thesis
    by (simp add: entryValueFromBuffer_DOUBLE_ARRAY length_concat_ieee754)
qed

lemma value_rt_STRING_ARRAY:
  assumes "length ss \<le> 255"
    and "drop off buf = (byteOfNumber (length ss) # concat (map encodeLEB128String ss)) @ rest"
  shows "entryValueFromBuffer fuel STRING_ARRAY buf off
         = Inr (NTEntryValue None None None None None None (Some ss) None,
                off + length (byteOfNumber (length ss) # concat (map encodeLEB128String ss)))"
proof -
  let ?m = "concat (map encodeLEB128String ss)"
  from assms(2) have d: "drop off buf = byteOfNumber (length ss) # ?m @ rest" by simp
  have n: "readUInt8 buf off = Inr (length ss)"
    using assms(1) d by (intro readUInt8_rt) simp_all
  have d1: "drop (off + 1) buf = ?m @ rest"
    using drop_next [of off buf "[byteOfNumber (length ss)]" "?m @ rest"] d by simp
  have len: "off + length [byteOfNumber (length ss)] + length (?m @ rest) = length buf"
    using drop_bound [of off buf "[byteOfNumber (length ss)]" "?m @ rest"] d by simp
  then have "off + 1 + length ss \<le> length buf"
    using length_concat_strings [of ss] by simp
  then have c: "checkBufferLength buf (off + 1) (length ss) = Inr ()"
    by (rule checkBufferLength_ok)
  have "strArrayLoop (length ss) buf (off + 1) = Inr (ss, off + 1 + length ?m)"
    using d1 by (rule strArrayLoop_rt)
  with n c show ?thesis
    by (simp add: entryValueFromBuffer_STRING_ARRAY)
qed

lemma value_rt_simple:
  assumes "roundtripValue t v" and "t \<noteq> RPC" and "entryValueToBuffer t v = Inr bs"
    and "drop off buf = bs @ rest"
  shows "entryValueFromBuffer fuel t buf off = Inr (v, off + length bs)"
  using assms(1)
proof (cases rule: roundtripValue_cases)
  case (BOOLEAN b)
  with assms(3,4) value_rt_BOOLEAN [of off buf b rest fuel] show ?thesis
    by (auto simp: entryValueToBuffer_BOOLEAN)
next
  case (DOUBLE d)
  with assms(3,4) value_rt_DOUBLE [of off buf d rest fuel] show ?thesis
    by (auto simp: entryValueToBuffer_DOUBLE length_ieee754_write)
next
  case (STRING s)
  with assms(3,4) value_rt_STRING [of off buf s rest fuel] show ?thesis
    by (auto simp: entryValueToBuffer_STRING)
next
  case (RAW r)
  with assms(3,4) value_rt_RAW [of off buf r rest fuel] show ?thesis
    by (auto simp: entryValueToBuffer_RAW)
next
  case (BOOLEAN_ARRAY xs)
  with assms(3,4) value_rt_BOOLEAN_ARRAY [of xs off buf rest fuel] show ?thesis
    by (auto simp: entryValueToBuffer_BOOLEAN_ARRAY)
next
  case (DOUBLE_ARRAY ds)
  with assms(3,4) value_rt_DOUBLE_ARRAY [of ds off buf rest fuel] show ?thesis
    by (auto simp: entryValueToBuffer_DOUBLE_ARRAY)
next
  case (STRING_ARRAY ss)
  with assms(3,4) value_rt_STRING_ARRAY [of ss off buf rest fuel] show ?thesis
    by (auto simp: entryValueToBuffer_STRING_ARRAY)
next
  case (RPC d e)
  with assms(2) show ?thesis by simp
qed

subsection \<open>Truncated entry values\<close>

lemma strict_prefix_Cons_cases:
  assumes "strict_prefix p (c # m)"
  obtains "p = []" | us where "p = c # us" "strict_prefix us m"
  using assms by (cases p) auto

lemma readUInt8_end: "drop off buf = [] \<Longrightarrow> readUInt8 buf off = Inl RangeError"
  by (simp add: readUInt8_def)

lemma checkBufferLength_end:
  "drop off buf = [] \<Longrightarrow> 0 < n \<Longrightarrow> checkBufferLength buf off n = Inl InvalidBufferLengthError"
  by (simp add: checkBufferLength_def)

lemma checkBufferLength_truncated:
  assumes "drop off buf = p" and "length p < n"
  shows "checkBufferLength buf off n = Inl InvalidBufferLengthError"
proof -
  have "length buf \<le> off + length p" using assms(1) by (rule drop_short)
  with assms(2) show ?thesis by (simp add: checkBufferLength_def)
qed

lemma counted_truncated:
  assumes "n < 256" and "drop off buf = p" and "strict_prefix p (byteOfNumber n # m)"
    and "p \<noteq> []"
  shows "readUInt8 buf off = Inr n" and "length buf < off + 1 + length m"
    and "\<exists>us. drop (off + 1) buf = us \<and> strict_prefix us m"
proof -
  from assms(3,4) obtain us where p: "p = byteOfNumber n # us" and us: "strict_prefix us m"
    by (auto elim: strict_prefix_Cons_cases)
  from assms(2) p have d: "drop off buf = byteOfNumber n # us" by simp
  show "readUInt8 buf off = Inr n"
    using assms(1) d by (rule readUInt8_rt)
  have "length buf \<le> off + length (byteOfNumber n # us)"
    using d by (rule drop_short)
  moreover have "length us < length m"
    using us by (metis prefix_length_less)
  ultimately show "length buf < off + 1 + length m" by simp
  have "drop (off + 1) buf = us"
    using drop_next [of off buf "[byteOfNumber n]" us] d by simp
  with us show "\<exists>us. drop (off + 1) buf = us \<and> strict_prefix us m" by simp
qed

lemma value_truncated:
  assumes "roundtripValue t v" and "entryValueToBuffer t v = Inr bs"
    and "drop off buf = p" and "strict_prefix p bs"
  shows "\<exists>e. entryValueFromBuffer fuel t buf off = Inl e \<and> e \<noteq> OutOfFuel"
  using assms(1)
proof (cases rule: roundtripValue_cases)
  case (BOOLEAN b)
  with assms(2) have "bs = [if b then 1 else 0]"
    by (simp add: entryValueToBuffer_BOOLEAN)
  with assms(4) have "length p < 1"
    by (metis prefix_length_less length_Cons list.size(3) One_nat_def)
  with assms(3) have "checkBufferLength buf off 1 = Inl InvalidBufferLengthError"
    by (rule checkBufferLength_truncated)
  with BOOLEAN show ?thesis by (simp add: entryValueFromBuffer_BOOLEAN)
next
  case (DOUBLE d)
  with assms(2) have "bs = ieee754_write d"
    by (simp add: entryValueToBuffer_DOUBLE)
  with assms(4) have "length p < 8"
    by (metis prefix_length_less length_ieee754_write)
  with assms(3) have "checkBufferLength buf off 8 = Inl InvalidBufferLengthError"
    by (rule checkBufferLength_truncated)
  with DOUBLE show ?thesis by (simp add: entryValueFromBuffer_DOUBLE)
next
  case (STRING s)
  with assms(2) have "bs = encodeLEB128String s"
    by (simp add: entryValueToBuffer_STRING)
  with assms(3,4) have "decodeLEB128String buf off = Inl InvalidBufferLengthError"
    by (simp add: decodeLEB128String_truncated)
  with STRING show ?thesis by (simp add: entryValueFromBuffer_STRING)
next
  case (RAW r)
  let ?l = "toUnsignedLEB128 (length r)"
  from RAW assms(2) have "bs = ?l @ r"
    by (simp add: entryValueToBuffer_RAW)
  with assms(4) consider "strict_prefix p ?l" | us where "p = ?l @ us" "strict_prefix us r"
    using strict_prefix_append by blast
  then show ?thesis
  proof cases
    case 1
    with assms(3) have "fromUnsignedLEB128 buf off = Inl InvalidBufferLengthError"
      by (rule fromUnsignedLEB128_truncated)
    with RAW show ?thesis by (simp add: entryValueFromBuffer_RAW)
  next
    case 2
    with assms(3) have d: "drop off buf = ?l @ us" by simp
    have l: "fromUnsignedLEB128 buf off = Inr (length r, off + length ?l)"
      using d by (rule fromUnsignedLEB128_rt)
    have "drop (off + length ?l) buf = us"
      using d by (rule drop_next)
    moreover have "length us < length r"
      using 2(2) by (metis prefix_length_less)
    ultimately have "checkBufferLength buf (off + length ?l) (length r)
                     = Inl InvalidBufferLengthError"
      by (rule checkBufferLength_truncated)
    with RAW l show ?thesis by (simp add: entryValueFromBuffer_RAW)
  qed
next
  case (BOOLEAN_ARRAY xs)
  let ?m = "map (\<lambda>val. if val then 1 else 0 :: byte) xs"
  from BOOLEAN_ARRAY assms(2) have bs: "bs = byteOfNumber (length xs) # ?m"
    by (simp add: entryValueToBuffer_BOOLEAN_ARRAY)
  show ?thesis
  proof (cases "p = []")
    case True
    with assms(3) have "readUInt8 buf off = Inl RangeError"
      by (simp add: readUInt8_end)
    with BOOLEAN_ARRAY show ?thesis by (simp add: entryValueFromBuffer_BOOLEAN_ARRAY)
  next
    case False
    from BOOLEAN_ARRAY(2) have n: "length xs < 256" by simp
    note c = counted_truncated [OF n assms(3) assms(4) [unfolded bs] False]
    from c(2) have "checkBufferLength buf (off + 1) (length xs) = Inl InvalidBufferLengthError"
      by (simp add: checkBufferLength_def)
    with c(1) BOOLEAN_ARRAY show ?thesis by (simp add: entryValueFromBuffer_BOOLEAN_ARRAY)
  qed
next
  case (DOUBLE_ARRAY ds)
  let ?m = "concat (map ieee754_write ds)"
  from DOUBLE_ARRAY assms(2) have bs: "bs = byteOfNumber (length ds) # ?m"
    by (simp add: entryValueToBuffer_DOUBLE_ARRAY)
  show ?thesis
  proof (cases "p = []")
    case True
    with assms(3) have "readUInt8 buf off = Inl RangeError"
      by (simp add: readUInt8_end)
    with DOUBLE_ARRAY show ?thesis by (simp add: entryValueFromBuffer_DOUBLE_ARRAY)
  next
    case False
    from DOUBLE_ARRAY(2) have n: "length ds < 256" by simp
    note c = counted_truncated [OF n assms(3) assms(4) [unfolded bs] False]
    from c(2) have "checkBufferLength buf (off + 1) (length ds * 8)
                    = Inl InvalidBufferLengthError"
      by (simp add: checkBufferLength_def length_concat_ieee754 mult.commute)
    with c(1) DOUBLE_ARRAY show ?thesis by (simp add: entryValueFromBuffer_DOUBLE_ARRAY)
  qed
next
  case (STRING_ARRAY ss)
  let ?m = "concat (map encodeLEB128String ss)"
  from STRING_ARRAY assms(2) have bs: "bs = byteOfNumber (length ss) # ?m"
    by (simp add: entryValueToBuffer_STRING_ARRAY)
  show ?thesis
  proof (cases "p = []")
    case True
    with assms(3) have "readUInt8 buf off = Inl RangeError"
      by (simp add: readUInt8_end)
    with STRING_ARRAY show ?thesis by (simp add: entryValueFromBuffer_STRING_ARRAY)
  next
    case False
    from STRING_ARRAY(2) have n: "length ss < 256" by simp
    note c = counted_truncated [OF n assms(3) assms(4) [unfolded bs] False]
    from c(3) have l: "strArrayLoop (length ss) buf (off + 1) = Inl InvalidBufferLengthError"
      by (auto intro: strArrayLoop_truncated)
    have "\<exists>e. (case checkBufferLength buf (off + 1) (length ss) of
                 Inl e \<Rightarrow> Inl e
               | Inr _ \<Rightarrow>
                   (case strArrayLoop (length ss) buf (off + 1) of
                      Inl e \<Rightarrow> Inl e
                    | Inr (strArray, bufOffset) \<Rightarrow>
                        Inr (NTEntryValue None None None None None None (Some strArray) None,
                             bufOffset))) = Inl e \<and> e \<noteq> OutOfFuel"
      unfolding l by (simp add: checkBufferLength_def)
    with c(1) STRING_ARRAY show ?thesis by (simp add: entryValueFromBuffer_STRING_ARRAY)
  qed
next
  case (RPC d e)
  from RPC assms(2) have bs: "bs = byteOfNumber (length e) # e"
    by (simp add: entryValueToBuffer_RPC)
  show ?thesis
  proof (cases "p = []")
    case True
    with assms(3) have "fromUnsignedLEB128 buf off = Inl InvalidBufferLengthError"
      by (simp add: fromUnsignedLEB128_def)
    with RPC show ?thesis by (simp add: entryValueFromBuffer_RPC)
  next
    case False
    with assms(4) bs obtain us where p: "p = byteOfNumber (length e) # us"
      and us: "strict_prefix us e"
      by (auto elim: strict_prefix_Cons_cases)
    from RPC(5) have leb: "toUnsignedLEB128 (length e) = [byteOfNumber (length e)]"
      by (rule byteOfNumber_small)
    from assms(3) p have d: "drop off buf = toUnsignedLEB128 (length e) @ us"
      by (simp add: leb)
    have l: "fromUnsignedLEB128 buf off = Inr (length e, off + 1)"
      using fromUnsignedLEB128_rt [OF d] by (simp add: leb)
    have "drop (off + length (toUnsignedLEB128 (length e))) buf = us"
      using d by (rule drop_next)
    then have "drop (off + 1) buf = us" by (simp add: leb)
    moreover have "length us < length e"
      using us by (metis prefix_length_less)
    ultimately have "checkBufferLength buf (off + 1) (length e) = Inl InvalidBufferLengthError"
      by (rule checkBufferLength_truncated)
    with RPC l show ?thesis by (simp add: entryValueFromBuffer_RPC)
  qed
qed

lemma value_nonempty:
  assumes "roundtripValue t v" and "entryValueToBuffer t v = Inr bs"
  shows "bs \<noteq> []"
  using assms(1)
proof (cases rule: roundtripValue_cases)
  case (DOUBLE d)
  with assms(2) show ?thesis
    by (auto simp: entryValueToBuffer_DOUBLE ieee754_write_def)
next
  case (STRING s)
  with assms(2) show ?thesis
    by (auto simp: entryValueToBuffer_STRING encodeLEB128String_nonempty)
next
  case (RAW r)
  with assms(2) show ?thesis
    by (auto simp: entryValueToBuffer_RAW toUnsignedLEB128_nonempty)
qed (use assms(2) in \<open>auto simp: entryValueToBuffer_BOOLEAN entryValueToBuffer_BOOLEAN_ARRAY
      entryValueToBuffer_DOUBLE_ARRAY entryValueToBuffer_STRING_ARRAY entryValueToBuffer_RPC\<close>)

subsection \<open>RPC definitions\<close>

lemma encodeRPCParameterSpecs_length:
  "encodeRPCParameterSpecs ps = Inr pbs \<Longrightarrow> length pbs = length ps"
  by (induction ps arbitrary: pbs) (auto split: sum.splits)

lemma decodeRPCResultSpec_rt:
  assumes "r_value r = emptyValue" and "drop off buf = encodeRPCResultSpec r @ rest"
  shows "decodeRPCResultSpec buf off = Inr (r, off + length (encodeRPCResultSpec r))"
proof -
  let ?e = "encodeLEB128String (r_name r)"
  from assms(2) have d: "drop off buf = r_type r # ?e @ rest"
    by (simp add: encodeRPCResultSpec_def)
  have t: "byteAt buf off = Some (r_type r)"
    using d by (rule byteAt_drop)
  have "drop (off + 1) buf = ?e @ rest"
    using drop_next [of off buf "[r_type r]" "?e @ rest"] d by simp
  then have "decodeLEB128String buf (off + 1) = Inr (r_name r, off + 1 + length ?e)"
    by (rule decodeLEB128String_rt)
  moreover have "V3RPCResult (r_type r) (r_name r) emptyValue = r"
    using assms(1) by (cases r) simp
  ultimately show ?thesis
    using t by (simp add: decodeRPCResultSpec_def encodeRPCResultSpec_def)
qed

lemma decodeRPCResultSpecs_rt:
  "list_all (\<lambda>r. r_value r = emptyValue) rs \<Longrightarrow>
   drop off buf = concat (map encodeRPCResultSpec rs) @ rest \<Longrightarrow>
   decodeRPCResultSpecs (length rs) buf off
   = Inr (rs, off + length (concat (map encodeRPCResultSpec rs)))"
proof (induction rs arbitrary: off)
  case Nil
  then show ?case by simp
next
  case (Cons r rs)
  let ?e = "encodeRPCResultSpec r"
  from Cons.prems(2) have d: "drop off buf = ?e @ concat (map encodeRPCResultSpec rs) @ rest"
    by simp
  from Cons.prems(1) have v: "r_value r = emptyValue" and vs: "list_all (\<lambda>r. r_value r = emptyValue) rs"
    by simp_all
  have r: "decodeRPCResultSpec buf off = Inr (r, off + length ?e)"
    using v d by (rule decodeRPCResultSpec_rt)
  have "drop (off + length ?e) buf = concat (map encodeRPCResultSpec rs) @ rest"
    using d by (rule drop_next)
  from Cons.IH [OF vs this] r show ?case by (simp add: add.assoc)
qed

lemma decodeRPCParameterSpec_rt:
  assumes IH: "\<And>t v bs buf off rest. roundtripValue t v \<Longrightarrow> valueDepth v \<le> f \<Longrightarrow>
      entryValueToBuffer t v = Inr bs \<Longrightarrow> drop off buf = bs @ rest \<Longrightarrow>
      entryValueFromBuffer f t buf off = Inr (v, off + length bs)"
    and "roundtripParameter p" and "parameterDepth p \<le> f"
    and "encodeRPCParameterSpec p = Inr bs" and "drop off buf = bs @ rest"
  shows "decodeRPCParameterSpec f buf off = Inr (p, off + length bs)"
proof (cases p)
  case (V3RPCParameter t n v)
  let ?e = "encodeLEB128String n"
  from assms(2,3) V3RPCParameter have wf: "roundtripValue t v" and dep: "valueDepth v \<le> f"
    by simp_all
  from assms(4) V3RPCParameter obtain vb where vb: "entryValueToBuffer t v = Inr vb"
    and bs: "bs = [t] @ ?e @ vb"
    by (auto simp: encodeRPCParameterSpec.simps split: sum.splits)
  from assms(5) bs have d: "drop off buf = t # ?e @ vb @ rest" by simp
  have t: "byteAt buf off = Some t"
    using d by (rule byteAt_drop)
  have d1: "drop (off + 1) buf = ?e @ vb @ rest"
    using drop_next [of off buf "[t]" "?e @ vb @ rest"] d by simp
  have s: "decodeLEB128String buf (off + 1) = Inr (n, off + 1 + length ?e)"
    using d1 by (rule decodeLEB128String_rt)
  have d2: "drop (off + 1 + length ?e) buf = vb @ rest"
    using d1 by (rule drop_next)
  have "entryValueFromBuffer f t buf (off + 1 + length ?e) = Inr (v, off + 1 + length ?e + length vb)"
    using wf dep vb d2 by (rule IH)
  with s t show ?thesis
    by (simp add: decodeRPCParameterSpec.simps V3RPCParameter bs add.assoc)
qed

lemma decodeRPCParameterSpecs_rt:
  assumes IH: "\<And>t v bs buf off rest. roundtripValue t v \<Longrightarrow> valueDepth v \<le> f \<Longrightarrow>
      entryValueToBuffer t v = Inr bs \<Longrightarrow> drop off buf = bs @ rest \<Longrightarrow>
      entryValueFromBuffer f t buf off = Inr (v, off + length bs)"
  shows "roundtripParameters ps \<Longrightarrow> parametersDepth ps \<le> f \<Longrightarrow>
    encodeRPCParameterSpecs ps = Inr pbs \<Longrightarrow> drop off buf = concat pbs @ rest \<Longrightarrow>
    decodeRPCParameterSpecs f (length ps) buf off = Inr (ps, off + length (concat pbs))"
proof (induction ps arbitrary: pbs off)
  case Nil
  then show ?case by simp
next
  case (Cons p ps)
  from Cons.prems(3) obtain b bs' where b: "encodeRPCParameterSpec p = Inr b"
    and bs': "encodeRPCParameterSpecs ps = Inr bs'" and pbs: "pbs = b # bs'"
    by (auto split: sum.splits)
  from Cons.prems(4) pbs have d: "drop off buf = b @ concat bs' @ rest" by simp
  from Cons.prems(1,2) have wf: "roundtripParameter p" "roundtripParameters ps"
    and dep: "parameterDepth p \<le> f" "parametersDepth ps \<le> f"
    by simp_all
  have r: "decodeRPCParameterSpec f buf off = Inr (p, off + length b)"
    using IH wf(1) dep(1) b d by (rule decodeRPCParameterSpec_rt)
  have "drop (off + length b) buf = concat bs' @ rest"
    using d by (rule drop_next)
  from Cons.IH [OF wf(2) dep(2) bs' this] r pbs show ?case by (simp add: add.assoc)
qed

lemma loopBound_count: "n \<le> 255 \<Longrightarrow> loopBound (Some (byteOfNumber n)) = n"
  by (simp add: loopBound_def unat_byteOfNumber)

lemma decodeRPCDefinition_rt:
  assumes IH: "\<And>t v bs buf off rest. roundtripValue t v \<Longrightarrow> valueDepth v \<le> f \<Longrightarrow>
      entryValueToBuffer t v = Inr bs \<Longrightarrow> drop off buf = bs @ rest \<Longrightarrow>
      entryValueFromBuffer f t buf off = Inr (v, off + length bs)"
    and "roundtripDefinition d" and "definitionDepth d \<le> f"
    and "encodeRPCDefinition d = Inr bs" and "drop off buf = bs @ rest"
  shows "decodeRPCDefinition f buf off = Inr (d, off + length bs)"
proof (cases d)
  case (V3RPCDefinition n ps rs)
  let ?e = "encodeLEB128String n"
  let ?rb = "concat (map encodeRPCResultSpec rs)"
  from assms(2,3) V3RPCDefinition have wf: "length ps \<le> 255" "length rs \<le> 255"
    "roundtripParameters ps" "list_all (\<lambda>r. r_value r = emptyValue) rs"
    and dep: "parametersDepth ps \<le> f"
    by simp_all
  from assms(4) V3RPCDefinition obtain pbs where pbs: "encodeRPCParameterSpecs ps = Inr pbs"
    and bs: "bs = [1] @ ?e @ [byteOfNumber (length pbs)] @ concat pbs
                  @ [byteOfNumber (length rs)] @ ?rb"
    by (auto simp: encodeRPCDefinition.simps split: sum.splits)
  have lp: "length pbs = length ps"
    using pbs by (rule encodeRPCParameterSpecs_length)
  let ?t1 = "byteOfNumber (length ps) # concat pbs @ byteOfNumber (length rs) # ?rb @ rest"
  let ?t2 = "byteOfNumber (length rs) # ?rb @ rest"
  from assms(5) bs lp have d: "drop off buf = 1 # ?e @ ?t1" by simp
  have v: "byteAt buf off = Some 1"
    using d by (rule byteAt_drop)
  have d1: "drop (off + 1) buf = ?e @ ?t1"
    using drop_next [of off buf "[1]" "?e @ ?t1"] d by simp
  define o1 where "o1 = off + 1 + length ?e"
  have s: "decodeLEB128String buf (off + 1) = Inr (n, o1)"
    unfolding o1_def using d1 by (rule decodeLEB128String_rt)
  have d2: "drop o1 buf = ?t1"
    unfolding o1_def using d1 by (rule drop_next)
  have c1: "loopBound (byteAt buf o1) = length ps"
    using byteAt_drop [OF d2] wf(1) by (simp add: loopBound_count)
  have d3: "drop (o1 + 1) buf = concat pbs @ ?t2"
    using drop_next [of o1 buf "[byteOfNumber (length ps)]" "concat pbs @ ?t2"] d2 by simp
  define o2 where "o2 = o1 + 1 + length (concat pbs)"
  have p: "decodeRPCParameterSpecs f (length ps) buf (o1 + 1) = Inr (ps, o2)"
    unfolding o2_def using IH wf(3) dep pbs d3 by (rule decodeRPCParameterSpecs_rt)
  have d4: "drop o2 buf = ?t2"
    unfolding o2_def using d3 by (rule drop_next)
  have c2: "loopBound (byteAt buf o2) = length rs"
    using byteAt_drop [OF d4] wf(2) by (simp add: loopBound_count)
  have d5: "drop (o2 + 1) buf = ?rb @ rest"
    using drop_next [of o2 buf "[byteOfNumber (length rs)]" "?rb @ rest"] d4 by simp
  have r: "decodeRPCResultSpecs (length rs) buf (o2 + 1) = Inr (rs, o2 + 1 + length ?rb)"
    using wf(4) d5 by (rule decodeRPCResultSpecs_rt)
  have len: "o2 + 1 + length ?rb = off + length bs"
    by (simp add: o2_def o1_def bs)
  show ?thesis
    unfolding decodeRPCDefinition.simps [of f buf off] V3RPCDefinition
    using v s c1 p c2 r len by simp
qed

subsection \<open>Entry values\<close>

lemma value_rt_RPC:
  assumes IH: "\<And>t v bs buf off rest. roundtripValue t v \<Longrightarrow> valueDepth v \<le> f \<Longrightarrow>
      entryValueToBuffer t v = Inr bs \<Longrightarrow> drop off buf = bs @ rest \<Longrightarrow>
      entryValueFromBuffer f t buf off = Inr (v, off + length bs)"
    and "roundtripDefinition d" and "definitionDepth d \<le> f"
    and "encodeRPCDefinition d = Inr e" and "length e < 128"
    and "drop off buf = (byteOfNumber (length e) # e) @ rest"
  shows "entryValueFromBuffer (Suc f) RPC buf off
         = Inr (NTEntryValue None None None None None None None (Some d),
                off + length (byteOfNumber (length e) # e))"
proof -
  from assms(5) have leb: "toUnsignedLEB128 (length e) = [byteOfNumber (length e)]"
    by (rule byteOfNumber_small)
  from assms(6) have d0: "drop off buf = toUnsignedLEB128 (length e) @ e @ rest"
    by (simp add: leb)
  have l: "fromUnsignedLEB128 buf off = Inr (length e, off + 1)"
    using fromUnsignedLEB128_rt [OF d0] by (simp add: leb)
  have "drop (off + length (toUnsignedLEB128 (length e))) buf = e @ rest"
    using d0 by (rule drop_next)
  then have d1: "drop (off + 1) buf = e @ rest" by (simp add: leb)
  have "off + length (toUnsignedLEB128 (length e)) + length (e @ rest) = length buf"
    using d0 toUnsignedLEB128_nonempty by (rule drop_bound)
  then have "off + 1 + length e \<le> length buf" by (simp add: leb)
  then have c: "checkBufferLength buf (off + 1) (length e) = Inr ()"
    by (rule checkBufferLength_ok)
  have "decodeRPCDefinition f buf (off + 1) = Inr (d, off + 1 + length e)"
    using IH assms(2,3,4) d1 by (rule decodeRPCDefinition_rt)
  with l c show ?thesis
    by (simp add: entryValueFromBuffer_RPC)
qed

lemma value_rt:
  "roundtripValue t v \<Longrightarrow> valueDepth v \<le> fuel \<Longrightarrow> entryValueToBuffer t v = Inr bs \<Longrightarrow>
   drop off buf = bs @ rest \<Longrightarrow>
   entryValueFromBuffer fuel t buf off = Inr (v, off + length bs)"
proof (induction fuel arbitrary: t v bs buf off rest)
  case 0
  from "0.prems"(1) have "t \<noteq> RPC"
  proof (cases rule: roundtripValue_cases)
    case (RPC d e)
    with "0.prems"(2) show ?thesis by simp
  qed simp_all
  with "0.prems" show ?case by (intro value_rt_simple)
next
  case (Suc f)
  show ?case
  proof (cases "t = RPC")
    case False
    with Suc.prems show ?thesis by (intro value_rt_simple)
  next
    case True
    from Suc.prems(1) True obtain d e where
      v: "v = NTEntryValue None None None None None None None (Some d)"
      and wf: "roundtripDefinition d" and e: "encodeRPCDefinition d = Inr e"
      and len: "length e < 128"
      by (cases rule: roundtripValue_cases) simp_all
    from Suc.prems(2) v have dep: "definitionDepth d \<le> f" by simp
    from Suc.prems(3) True v e have bs: "bs = byteOfNumber (length e) # e"
      by (simp add: entryValueToBuffer_RPC)
    from Suc.prems(4) bs have d: "drop off buf = (byteOfNumber (length e) # e) @ rest"
      by simp
    have "entryValueFromBuffer (Suc f) RPC buf off
         = Inr (NTEntryValue None None None None None None None (Some d),
                off + length (byteOfNumber (length e) # e))"
      using Suc.IH wf dep e len d by (rule value_rt_RPC)
    with True v bs show ?thesis by simp
  qed
qed

subsection \<open>The values of RPC_EXECUTE and RPC_RESPONSE\<close>

lemma parametersToBuffers_length:
  "parametersToBuffers ps = Inr pbs \<Longrightarrow> length pbs = length ps"
  by (induction ps arbitrary: pbs) (auto split: sum.splits)

lemma resultsToBuffers_length:
  "resultsToBuffers rs = Inr rbs \<Longrightarrow> length rbs = length rs"
  by (induction rs arbitrary: rbs) (auto split: sum.splits)

lemma rpcParametersLoop_rt:
  "roundtripParameters ps \<Longrightarrow> parametersDepth ps \<le> fuel \<Longrightarrow>
   parametersToBuffers ps = Inr pbs \<Longrightarrow>
   map p_type defs = map p_type ps \<Longrightarrow> map p_name defs = map p_name ps \<Longrightarrow>
   drop off buf = concat pbs @ rest \<Longrightarrow>
   rpcParametersLoop fuel defs buf off = Inr (ps, off + length (concat pbs))"
proof (induction ps arbitrary: pbs defs off)
  case Nil
  then show ?case by simp
next
  case (Cons p ps)
  from Cons.prems(4,5) obtain pd defs' where defs: "defs = pd # defs'"
    and pd: "p_type pd = p_type p" "p_name pd = p_name p"
    and defs': "map p_type defs' = map p_type ps" "map p_name defs' = map p_name ps"
    by (cases defs) auto
  from Cons.prems(3) obtain b bs' where b: "entryValueToBuffer (p_type p) (p_value p) = Inr b"
    and bs': "parametersToBuffers ps = Inr bs'" and pbs: "pbs = b # bs'"
    by (auto split: sum.splits)
  from Cons.prems(1,2) have wf: "roundtripValue (p_type p) (p_value p)" "roundtripParameters ps"
    and dep: "valueDepth (p_value p) \<le> fuel" "parametersDepth ps \<le> fuel"
    by (cases p; simp)+
  from Cons.prems(6) pbs have d: "drop off buf = b @ concat bs' @ rest" by simp
  have r: "entryValueFromBuffer fuel (p_type p) buf off = Inr (p_value p, off + length b)"
    using wf(1) dep(1) b d by (rule value_rt)
  have "drop (off + length b) buf = concat bs' @ rest"
    using d by (rule drop_next)
  from Cons.IH [OF wf(2) dep(2) bs' defs' this] r pd defs pbs show ?case
    by (simp add: add.assoc)
qed

lemma rpcResultsLoop_rt:
  "list_all (\<lambda>r. roundtripValue (r_type r) (r_value r)) rs \<Longrightarrow> resultsDepth rs \<le> fuel \<Longrightarrow>
   resultsToBuffers rs = Inr rbs \<Longrightarrow>
   map r_type defs = map r_type rs \<Longrightarrow> map r_name defs = map r_name rs \<Longrightarrow>
   drop off buf = concat rbs @ rest \<Longrightarrow>
   rpcResultsLoop fuel defs buf off = Inr (rs, off + length (concat rbs))"
proof (induction rs arbitrary: rbs defs off)
  case Nil
  then show ?case by simp
next
  case (Cons r rs)
  from Cons.prems(4,5) obtain rd defs' where defs: "defs = rd # defs'"
    and rd: "r_type rd = r_type r" "r_name rd = r_name r"
    and defs': "map r_type defs' = map r_type rs" "map r_name defs' = map r_name rs"
    by (cases defs) auto
  from Cons.prems(3) obtain b bs' where b: "entryValueToBuffer (r_type r) (r_value r) = Inr b"
    and bs': "resultsToBuffers rs = Inr bs'" and rbs: "rbs = b # bs'"
    by (auto split: sum.splits)
  from Cons.prems(1,2) have wf: "roundtripValue (r_type r) (r_value r)"
    "list_all (\<lambda>r. roundtripValue (r_type r) (r_value r)) rs"
    and dep: "valueDepth (r_value r) \<le> fuel" "resultsDepth rs \<le> fuel"
    by simp_all
  from Cons.prems(6) rbs have d: "drop off buf = b @ concat bs' @ rest" by simp
  have r: "entryValueFromBuffer fuel (r_type r) buf off = Inr (r_value r, off + length b)"
    using wf(1) dep(1) b d by (rule value_rt)
  have "drop (off + length b) buf = concat bs' @ rest"
    using d by (rule drop_next)
  from Cons.IH [OF wf(2) dep(2) bs' defs' this] r rd defs rbs show ?case
    by (simp add: add.assoc)
qed

lemma rpcParametersLoop_truncated:
  "roundtripParameters ps \<Longrightarrow> parametersDepth ps \<le> fuel \<Longrightarrow>
   parametersToBuffers ps = Inr pbs \<Longrightarrow>
   map p_type defs = map p_type ps \<Longrightarrow>
   drop off buf = q \<Longrightarrow> strict_prefix q (concat pbs) \<Longrightarrow>
   \<exists>e. rpcParametersLoop fuel defs buf off = Inl e \<and> e \<noteq> OutOfFuel"
proof (induction ps arbitrary: pbs defs off q)
  case Nil
  then show ?case by simp
next
  case (Cons p ps)
  from Cons.prems(4) obtain pd defs' where defs: "defs = pd # defs'"
    and pd: "p_type pd = p_type p" and defs': "map p_type defs' = map p_type ps"
    by (cases defs) auto
  from Cons.prems(3) obtain b bs' where b: "entryValueToBuffer (p_type p) (p_value p) = Inr b"
    and bs': "parametersToBuffers ps = Inr bs'" and pbs: "pbs = b # bs'"
    by (auto split: sum.splits)
  from Cons.prems(1,2) have wf: "roundtripValue (p_type p) (p_value p)" "roundtripParameters ps"
    and dep: "valueDepth (p_value p) \<le> fuel" "parametersDepth ps \<le> fuel"
    by (cases p; simp)+
  from Cons.prems(6) pbs have "strict_prefix q (b @ concat bs')" by simp
  then consider "strict_prefix q b" | us where "q = b @ us" "strict_prefix us (concat bs')"
    using strict_prefix_append by blast
  then show ?case
  proof cases
    case 1
    from value_truncated [OF wf(1) b Cons.prems(5) 1, of fuel] pd defs show ?thesis
      by auto
  next
    case 2
    with Cons.prems(5) have d: "drop off buf = b @ us" by simp
    have r: "entryValueFromBuffer fuel (p_type p) buf off = Inr (p_value p, off + length b)"
      using wf(1) dep(1) b d by (rule value_rt)
    have "drop (off + length b) buf = us"
      using d by (rule drop_next)
    from Cons.IH [OF wf(2) dep(2) bs' defs' this 2(2)] r pd defs show ?thesis
      by auto
  qed
qed

lemma rpcResultsLoop_truncated:
  "list_all (\<lambda>r. roundtripValue (r_type r) (r_value r)) rs \<Longrightarrow> resultsDepth rs \<le> fuel \<Longrightarrow>
   resultsToBuffers rs = Inr rbs \<Longrightarrow>
   map r_type defs = map r_type rs \<Longrightarrow>
   drop off buf = q \<Longrightarrow> strict_prefix q (concat rbs) \<Longrightarrow>
   \<exists>e. rpcResultsLoop fuel defs buf off = Inl e \<and> e \<noteq> OutOfFuel"
proof (induction rs arbitrary: rbs defs off q)
  case Nil
  then show ?case by simp
next
  case (Cons r rs)
  from Cons.prems(4) obtain rd defs' where defs: "defs = rd # defs'"
    and rd: "r_type rd = r_type r" and defs': "map r_type defs' = map r_type rs"
    by (cases defs) auto
  from Cons.prems(3) obtain b bs' where b: "entryValueToBuffer (r_type r) (r_value r) = Inr b"
    and bs': "resultsToBuffers rs = Inr bs'" and rbs: "rbs = b # bs'"
    by (auto split: sum.splits)
  from Cons.prems(1,2) have wf: "roundtripValue (r_type r) (r_value r)"
    "list_all (\<lambda>r. roundtripValue (r_type r) (r_value r)) rs"
    and dep: "valueDepth (r_value r) \<le> fuel" "resultsDepth rs \<le> fuel"
    by simp_all
  from Cons.prems(6) rbs have "strict_prefix q (b @ concat bs')" by simp
  then consider "strict_prefix q b" | us where "q = b @ us" "strict_prefix us (concat bs')"
    using strict_prefix_append by blast
  then show ?case
  proof cases
    case 1
    from value_truncated [OF wf(1) b Cons.prems(5) 1, of fuel] rd defs show ?thesis
      by auto
  next
    case 2
    with Cons.prems(5) have d: "drop off buf = b @ us" by simp
    have r: "entryValueFromBuffer fuel (r_type r) buf off = Inr (r_value r, off + length b)"
      using wf(1) dep(1) b d by (rule value_rt)
    have "drop (off + length b) buf = us"
      using d by (rule drop_next)
    from Cons.IH [OF wf(2) dep(2) bs' defs' this 2(2)] r rd defs show ?thesis
      by auto
  qed
qed

subsection \<open>Exceptions and the top-level decoder\<close>

lemma throws_Inl [simp]: "throws (Inl e) = (e \<noteq> OutOfFuel)"
  by (simp add: throws_def)

lemma throws_Inr [simp]: "\<not> throws (Inr x)"
  by (simp add: throws_def)

lemma throwsI: "\<exists>e. r = Inl e \<and> e \<noteq> OutOfFuel \<Longrightarrow> throws r"
  by auto

lemma throws_bind: "throws r \<Longrightarrow> throws (case r of Inl e \<Rightarrow> Inl e | Inr x \<Rightarrow> f x)"
  by (cases r) simp_all

lemma throws_bind_pair:
  "throws r \<Longrightarrow> throws (case r of Inl e \<Rightarrow> Inl e | Inr (x, y) \<Rightarrow> f x y)"
  by (cases r) simp_all

lemma throws_after_check:
  "throws X \<Longrightarrow> throws (case checkBufferLength buf off n of Inl e \<Rightarrow> Inl e | Inr u \<Rightarrow> X)"
  by (simp add: checkBufferLength_def)

lemma catchUndefined_throws: "throws r \<Longrightarrow> catchUndefined r = Inr None"
  by (cases r) (auto simp: catchUndefined_def split: error.splits)

lemma catchUndefined_Inr [simp]: "catchUndefined (Inr w) = Inr (Some w)"
  by (simp add: catchUndefined_def)

lemma getNextAvailableMessage_end:
  "byteAt buf offset = None \<Longrightarrow> getNextAvailableMessage fuel defs buf offset = Inr None"
  by (simp add: getNextAvailableMessage_def getMessageType_def inByteToV3MessageType_def)

lemma getMessageType_known:
  "byteAt buf offset = Some t \<Longrightarrow>
   t \<in> {KEEP_ALIVE, CLIENT_HELLO, PROTO_VERSION_UNSUPPORTED, SERVER_HELLO_COMPLETE,
        SERVER_HELLO, CLIENT_HELLO_COMPLETE, ENTRY_ASSIGNMENT, ENTRY_UPDATE,
        ENTRY_FLAGS_UPDATE, ENTRY_DELETE, CLEAR_ALL_ENTRIES, RPC_EXECUTE, RPC_RESPONSE} \<Longrightarrow>
   getMessageType buf offset = Inr t"
  by (auto simp: getMessageType_def inByteToV3MessageType_def numberOfByte_def)

lemma dispatch_KEEP_ALIVE:
  "byteAt buf offset = Some KEEP_ALIVE \<Longrightarrow>
   getNextAvailableMessage fuel defs buf offset = Inr (Some (V3KeepAliveMessage, offset + 1))"
  by (simp add: getNextAvailableMessage_def getMessageType_known)

lemma dispatch_CLIENT_HELLO:
  "byteAt buf offset = Some CLIENT_HELLO \<Longrightarrow>
   getNextAvailableMessage fuel defs buf offset
   = catchUndefined (clientHelloMessageFromBuffer buf offset)"
  by (simp add: getNextAvailableMessage_def getMessageType_known)

lemma dispatch_PROTO_VERSION_UNSUPPORTED:
  "byteAt buf offset = Some PROTO_VERSION_UNSUPPORTED \<Longrightarrow>
   getNextAvailableMessage fuel defs buf offset
   = catchUndefined (protoVersionUnsupportedMessageFromBuffer buf offset)"
  by (simp add: getNextAvailableMessage_def getMessageType_known)

lemma dispatch_SERVER_HELLO_COMPLETE:
  "byteAt buf offset = Some SERVER_HELLO_COMPLETE \<Longrightarrow>
   getNextAvailableMessage fuel defs buf offset
   = Inr (Some (V3ServerHelloCompleteMessage, offset + 1))"
  by (simp add: getNextAvailableMessage_def getMessageType_known)

lemma dispatch_SERVER_HELLO:
  "byteAt buf offset = Some SERVER_HELLO \<Longrightarrow>
   getNextAvailableMessage fuel defs buf offset
   = catchUndefined (serverHelloMessageFromBuffer buf offset)"
  by (simp add: getNextAvailableMessage_def getMessageType_known)

lemma dispatch_CLIENT_HELLO_COMPLETE:
  "byteAt buf offset = Some CLIENT_HELLO_COMPLETE \<Longrightarrow>
   getNextAvailableMessage fuel defs buf offset
   = catchUndefined (clientHelloCompleteMessageFromBuffer buf offset)"
  by (simp add: getNextAvailableMessage_def getMessageType_known)

lemma dispatch_ENTRY_UPDATE:
  "byteAt buf offset = Some ENTRY_UPDATE \<Longrightarrow>
   getNextAvailableMessage fuel defs buf offset
   = catchUndefined (entryUpdateMessageFromBuffer fuel buf offset)"
  by (simp add: getNextAvailableMessage_def getMessageType_known)

lemma dispatch_ENTRY_ASSIGNMENT:
  "byteAt buf offset = Some ENTRY_ASSIGNMENT \<Longrightarrow>
   getNextAvailableMessage fuel defs buf offset
   = catchUndefined (entryAssignmentMessageFromBuffer fuel buf offset)"
  by (simp add: getNextAvailableMessage_def getMessageType_known)

lemma dispatch_ENTRY_FLAGS_UPDATE:
  "byteAt buf offset = Some ENTRY_FLAGS_UPDATE \<Longrightarrow>
   getNextAvailableMessage fuel defs buf offset
   = catchUndefined (entryFlagsUpdateMessageFromBuffer buf offset)"
  by (simp add: getNextAvailableMessage_def getMessageType_known)

lemma dispatch_ENTRY_DELETE:
  "byteAt buf offset = Some ENTRY_DELETE \<Longrightarrow>
   getNextAvailableMessage fuel defs buf offset
   = catchUndefined (entryDeleteMessageFromBuffer buf offset)"
  by (simp add: getNextAvailableMessage_def getMessageType_known)

lemma dispatch_CLEAR_ALL_ENTRIES:
  "byteAt buf offset = Some CLEAR_ALL_ENTRIES \<Longrightarrow>
   getNextAvailableMessage fuel defs buf offset
   = catchUndefined (clearAllEntriesMessageFromBuffer buf offset)"
  by (simp add: getNextAvailableMessage_def getMessageType_known)

lemma dispatch_RPC_EXECUTE:
  "byteAt buf offset = Some RPC_EXECUTE \<Longrightarrow>
   getNextAvailableMessage fuel defs buf offset
   = catchUndefined (rpcExecuteMessageFromBuffer fuel defs buf offset)"
  by (simp add: getNextAvailableMessage_def getMessageType_known)

lemma dispatch_RPC_RESPONSE:
  "byteAt buf offset = Some RPC_RESPONSE \<Longrightarrow>
   getNextAvailableMessage fuel defs buf offset
   = catchUndefined (rpcResponseMessageFromBuffer fuel defs buf offset)"
  by (simp add: getNextAvailableMessage_def getMessageType_known)

text \<open>A nonempty strict prefix keeps the first byte.\<close>

lemma strict_prefix_hd:
  assumes "strict_prefix p (t # body)" and "p \<noteq> []"
  obtains q where "p = t # q" "strict_prefix q body"
  using assms by (cases p) auto

subsection \<open>Messages of fixed length\<close>

lemma throws_short:
  "length p < n \<Longrightarrow> throws (case checkBufferLength p 0 n of Inl e \<Rightarrow> Inl e | Inr u \<Rightarrow> X)"
  by (simp add: checkBufferLength_def)

lemma flags_rt: "UInt8ToEntryFlags (entryFlagsToUInt8 f) = f"
  by (cases "persistent f") (simp_all add: UInt8ToEntryFlags_def entryFlagsToUInt8_def)

lemma writeUInt16BE_cases:
  assumes "writeUInt16BE v = Inr b"
  obtains hi lo where "b = [hi, lo]" "unat hi * 256 + unat lo = v"
proof -
  from assms have v: "v < 65536" and b: "b = [of_nat (v div 256), of_nat (v mod 256)]"
    by (auto simp: writeUInt16BE_def split: if_splits)
  from v have "v div 256 < 256" by simp
  then have "unat (of_nat (v div 256) :: byte) = v div 256"
    by (rule unat_byte_of_nat)
  moreover have "unat (of_nat (v mod 256) :: byte) = v mod 256"
    by (rule unat_byte_of_nat) simp
  ultimately have "unat (of_nat (v div 256) :: byte) * 256 + unat (of_nat (v mod 256) :: byte) = v"
    by simp
  with b that show ?thesis by blast
qed

lemma clientHelloComplete_rt:
  "clientHelloCompleteMessageFromBuffer clientHelloCompleteMessageToBuffer 0
   = Inr (V3ClientHelloCompleteMessage, length clientHelloCompleteMessageToBuffer)"
  by (simp add: clientHelloCompleteMessageFromBuffer_def clientHelloCompleteMessageToBuffer_def
      checkBufferLength_def checkMessageType_def byteAt_def)

lemma protoVersionUnsupported_rt:
  assumes "major < 256" and "minor < 256"
  shows "protoVersionUnsupportedMessageFromBuffer
           (protoVersionUnsupportedMessageToBuffer major minor) 0
         = Inr (V3ProtoVersionUnsupportedMessage major minor,
                length (protoVersionUnsupportedMessageToBuffer major minor))"
  using assms
  by (simp add: protoVersionUnsupportedMessageFromBuffer_def
      protoVersionUnsupportedMessageToBuffer_def checkBufferLength_def checkMessageType_def
      byteAt_def readUInt8_def unat_byteOfNumber)

lemma protoVersionUnsupported_truncated:
  assumes "strict_prefix p (protoVersionUnsupportedMessageToBuffer major minor)"
  shows "throws (protoVersionUnsupportedMessageFromBuffer p 0)"
proof -
  from assms have "length p < 3"
    by (metis prefix_length_less protoVersionUnsupportedMessageToBuffer_def length_Cons
        list.size(3) append_Cons append_Nil numeral_3_eq_3)
  then show ?thesis
    unfolding protoVersionUnsupportedMessageFromBuffer_def by (rule throws_short)
qed

lemma entryFlagsUpdate_rt:
  assumes "entryFlagsUpdateMessageToBuffer entryId entryFlags = Inr bs"
  shows "entryFlagsUpdateMessageFromBuffer bs 0
         = Inr (V3EntryFlagsUpdateMessage entryId entryFlags, length bs)"
proof -
  from assms obtain b where b: "writeUInt16BE entryId = Inr b"
    and bs: "bs = [ENTRY_FLAGS_UPDATE] @ b @ [entryFlagsToUInt8 entryFlags]"
    by (auto simp: entryFlagsUpdateMessageToBuffer_def split: sum.splits)
  from b obtain hi lo where "b = [hi, lo]" "unat hi * 256 + unat lo = entryId"
    by (rule writeUInt16BE_cases)
  with bs show ?thesis
    by (simp add: entryFlagsUpdateMessageFromBuffer_def checkBufferLength_def
        checkMessageType_def byteAt_def readUInt16BE_def numberOfByte_def flags_rt)
qed

lemma entryFlagsUpdate_truncated:
  assumes "entryFlagsUpdateMessageToBuffer entryId entryFlags = Inr bs" and "strict_prefix p bs"
  shows "throws (entryFlagsUpdateMessageFromBuffer p 0)"
proof -
  from assms(1) have "length bs = 4"
    by (auto simp: entryFlagsUpdateMessageToBuffer_def writeUInt16BE_length split: sum.splits)
  with assms(2) have "length p < 4"
    by (metis prefix_length_less)
  then show ?thesis
    unfolding entryFlagsUpdateMessageFromBuffer_def by (rule throws_short)
qed

lemma entryDelete_rt:
  assumes "entryDeleteMessageToBuffer entryId = Inr bs"
  shows "entryDeleteMessageFromBuffer bs 0 = Inr (V3EntryDeleteMessage entryId, length bs)"
proof -
  from assms obtain b where b: "writeUInt16BE entryId = Inr b"
    and bs: "bs = [ENTRY_DELETE] @ b"
    by (auto simp: entryDeleteMessageToBuffer_def split: sum.splits)
  from b obtain hi lo where "b = [hi, lo]" "unat hi * 256 + unat lo = entryId"
    by (rule writeUInt16BE_cases)
  with bs show ?thesis
    by (simp add: entryDeleteMessageFromBuffer_def checkBufferLength_def
        checkMessageType_def byteAt_def readUInt16BE_def)
qed

lemma entryDelete_truncated:
  assumes "entryDeleteMessageToBuffer entryId = Inr bs" and "strict_prefix p bs"
  shows "throws (entryDeleteMessageFromBuffer p 0)"
proof -
  from assms(1) have "length bs = 3"
    by (auto simp: entryDeleteMessageToBuffer_def writeUInt16BE_length split: sum.splits)
  with assms(2) have "length p < 3"
    by (metis prefix_length_less)
  then show ?thesis
    unfolding entryDeleteMessageFromBuffer_def by (rule throws_short)
qed

lemma clearAllEntriesMessageToBuffer_eq:
  "clearAllEntriesMessageToBuffer = Inr [CLEAR_ALL_ENTRIES, 0xD0, 0x6C, 0xB2, 0x7A]"
  by (simp add: clearAllEntriesMessageToBuffer_def writeUInt32BE_def
      CLEAR_ALL_ENTRIES_MAGIC_VALUE_def)

lemma clearAllEntries_rt:
  assumes "clearAllEntriesMessageToBuffer = Inr bs"
  shows "clearAllEntriesMessageFromBuffer bs 0 = Inr (V3ClearAllEntriesMessage, length bs)"
proof -
  from assms have "bs = [CLEAR_ALL_ENTRIES, 0xD0, 0x6C, 0xB2, 0x7A]"
    by (simp add: clearAllEntriesMessageToBuffer_eq)
  then show ?thesis
    by (simp add: clearAllEntriesMessageFromBuffer_def checkBufferLength_def
        checkMessageType_def byteAt_def readUInt32BE_def CLEAR_ALL_ENTRIES_MAGIC_VALUE_def)
qed

lemma clearAllEntries_truncated:
  assumes "clearAllEntriesMessageToBuffer = Inr bs" and "strict_prefix p bs"
  shows "throws (clearAllEntriesMessageFromBuffer p 0)"
proof -
  from assms(1) have "length bs = 5"
    by (auto simp: clearAllEntriesMessageToBuffer_eq)
  with assms(2) have "length p < 5"
    by (metis prefix_length_less)
  then show ?thesis
    unfolding clearAllEntriesMessageFromBuffer_def by (rule throws_short)
qed

subsection \<open>Truncated messages: the tools\<close>

lemma throws_bindI:
  assumes "r \<noteq> Inl OutOfFuel" and "\<And>x. r = Inr x \<Longrightarrow> throws (f x)"
  shows "throws (case r of Inl e \<Rightarrow> Inl e | Inr x \<Rightarrow> f x)"
  using assms by (cases r) auto

lemma nofuel [simp]:
  "checkBufferLength buf off n \<noteq> Inl OutOfFuel"
  "checkMessageType buf off t \<noteq> Inl OutOfFuel"
  "readUInt8 buf off \<noteq> Inl OutOfFuel"
  "readUInt16BE buf off \<noteq> Inl OutOfFuel"
  "readUInt32BE buf off \<noteq> Inl OutOfFuel"
  "fromUnsignedLEB128 buf off \<noteq> Inl OutOfFuel"
  "decodeLEB128String buf off \<noteq> Inl OutOfFuel"
  by (auto simp: checkBufferLength_def checkMessageType_def readUInt8_def readUInt16BE_def
      readUInt32BE_def fromUnsignedLEB128_def decodeLEB128String_def
      split: option.splits sum.splits prod.splits if_splits)

lemma strict_prefix_drop:
  assumes "strict_prefix q (h @ t)" and "t \<noteq> []"
  shows "strict_prefix (drop (length h) q) t"
proof -
  from assms(1) consider "strict_prefix q h" | us where "q = h @ us" "strict_prefix us t"
    using strict_prefix_append by blast
  then show ?thesis
  proof cases
    case 1
    then have "length q < length h" by (metis prefix_length_less)
    with assms(2) show ?thesis by (simp add: strict_prefix_def)
  next
    case 2
    then show ?thesis by simp
  qed
qed

lemma prefix_nth: "prefix p bs \<Longrightarrow> i < length p \<Longrightarrow> p ! i = bs ! i"
  by (auto simp: prefix_def nth_append)

lemma prefix_byteAt: "prefix p bs \<Longrightarrow> byteAt p i = Some x \<Longrightarrow> byteAt bs i = Some x"
  by (auto simp: byteAt_def prefix_def nth_append split: if_splits)

lemma prefix_readUInt16BE:
  "prefix p bs \<Longrightarrow> readUInt16BE p i = Inr x \<Longrightarrow> readUInt16BE bs i = Inr x"
  by (auto simp: readUInt16BE_def prefix_def nth_append split: if_splits)

lemma encodeLEB128String_length: "1 \<le> length (encodeLEB128String s)"
proof -
  have "encodeLEB128String s \<noteq> []" by (rule encodeLEB128String_nonempty)
  then show ?thesis by (cases "encodeLEB128String s") simp_all
qed

subsection \<open>CLIENT_HELLO and SERVER_HELLO\<close>

lemma clientHello_rt:
  "clientHelloMessageFromBuffer (clientHelloMessageToBuffer 3 0 clientIdent) 0
   = Inr (V3ClientHelloMessage 3 0 clientIdent,
          length (clientHelloMessageToBuffer 3 0 clientIdent))"
proof -
  let ?e = "encodeLEB128String clientIdent"
  let ?bs = "CLIENT_HELLO # 3 # 0 # ?e"
  have bs: "clientHelloMessageToBuffer 3 0 clientIdent = ?bs"
    by (simp add: clientHelloMessageToBuffer_def)
  have "drop 3 ?bs = ?e @ []" by simp
  then have s: "decodeLEB128String ?bs 3 = Inr (clientIdent, 3 + length ?e)"
    by (rule decodeLEB128String_rt)
  have c: "checkBufferLength ?bs 0 4 = Inr ()"
    using encodeLEB128String_nonempty [of clientIdent] by (simp add: checkBufferLength_def)
  show ?thesis
    unfolding bs clientHelloMessageFromBuffer_def
    using s c
    by (simp add: checkMessageType_def byteAt_def readUInt8_def encodeLEB128String_nonempty)
qed

lemma clientHello_truncated:
  assumes "strict_prefix p (clientHelloMessageToBuffer 3 0 clientIdent)"
  shows "throws (clientHelloMessageFromBuffer p 0)"
proof -
  let ?e = "encodeLEB128String clientIdent"
  from assms have "strict_prefix p ([CLIENT_HELLO, 3, 0] @ ?e)"
    by (simp add: clientHelloMessageToBuffer_def)
  then have "strict_prefix (drop (length [CLIENT_HELLO, 3, 0 :: byte]) p) ?e"
    using encodeLEB128String_nonempty by (rule strict_prefix_drop)
  then have "strict_prefix (drop 3 p) ?e" by (simp add: numeral_3_eq_3)
  with refl have "decodeLEB128String p (0 + 3) = Inl InvalidBufferLengthError"
    by (simp add: decodeLEB128String_truncated)
  then show ?thesis
    unfolding clientHelloMessageFromBuffer_def
    by (intro throws_bindI) simp_all
qed

lemma serverHello_rt:
  "serverHelloMessageFromBuffer (serverHelloMessageToBuffer seen serverIdentity) 0
   = Inr (V3ServerHelloMessage seen serverIdentity,
          length (serverHelloMessageToBuffer seen serverIdentity))"
proof -
  let ?e = "encodeLEB128String serverIdentity"
  define fl :: byte where "fl = (if seen then 1 else 0)"
  let ?bs = "SERVER_HELLO # fl # ?e"
  have fl: "(fl AND 1 = 1) = seen"
    by (simp add: fl_def)
  have bs: "serverHelloMessageToBuffer seen serverIdentity = ?bs"
    by (simp add: serverHelloMessageToBuffer_def fl_def)
  have "drop (0 + 2) ?bs = ?e @ []" by simp
  then have s: "decodeLEB128String ?bs (0 + 2) = Inr (serverIdentity, 0 + 2 + length ?e)"
    by (rule decodeLEB128String_rt)
  have c: "checkBufferLength ?bs 0 3 = Inr ()"
    using encodeLEB128String_nonempty [of serverIdentity] by (simp add: checkBufferLength_def)
  show ?thesis
    unfolding bs serverHelloMessageFromBuffer_def
    using s c fl
    by (simp add: checkMessageType_def byteAt_def numberOfByte_def)
qed

lemma serverHello_truncated:
  assumes "strict_prefix p (serverHelloMessageToBuffer seen serverIdentity)"
  shows "throws (serverHelloMessageFromBuffer p 0)"
proof -
  let ?e = "encodeLEB128String serverIdentity"
  from assms have "strict_prefix p ([SERVER_HELLO, if seen then 1 else 0] @ ?e)"
    by (simp add: serverHelloMessageToBuffer_def)
  then have "strict_prefix (drop (length [SERVER_HELLO, if seen then 1 else 0 :: byte]) p) ?e"
    using encodeLEB128String_nonempty by (rule strict_prefix_drop)
  then have "strict_prefix (drop 2 p) ?e" by (simp add: numeral_2_eq_2)
  with refl have "decodeLEB128String p 2 = Inl InvalidBufferLengthError"
    by (rule decodeLEB128String_truncated)
  then have "decodeLEB128String p (Suc (Suc 0)) = Inl InvalidBufferLengthError"
    by (simp add: numeral_2_eq_2)
  then show ?thesis
    unfolding serverHelloMessageFromBuffer_def Let_def
    by (intro throws_bindI) simp_all
qed

subsection \<open>ENTRY_UPDATE and ENTRY_ASSIGNMENT\<close>

lemma throws_ifI:
  "(c \<Longrightarrow> throws A) \<Longrightarrow> (\<not> c \<Longrightarrow> throws B) \<Longrightarrow> throws (if c then A else B)"
  by simp

lemma roundtripValue_type:
  assumes "roundtripValue t v"
  shows "inByteToV3EntryType (Some t)"
  using assms by (cases rule: roundtripValue_cases) (auto simp: inByteToV3EntryType_def)

lemma strict_prefix_split:
  assumes "strict_prefix p (h @ t)" and "length h \<le> length p"
  obtains us where "p = h @ us" "strict_prefix us t"
proof -
  from assms(1) consider "strict_prefix p h" | us where "p = h @ us" "strict_prefix us t"
    using strict_prefix_append by blast
  then show ?thesis
  proof cases
    case 1
    then have "length p < length h" by (metis prefix_length_less)
    with assms(2) show ?thesis by simp
  next
    case 2
    with that show ?thesis by blast
  qed
qed

lemma entryUpdateMessageToBuffer_Inr:
  assumes "entryUpdateMessageToBuffer t entryId entrySeq v = Inr bs"
  obtains i1 i2 s1 s2 vb where "entryValueToBuffer t v = Inr vb"
    "bs = [ENTRY_UPDATE, i1, i2, s1, s2, t] @ vb"
    "unat i1 * 256 + unat i2 = entryId" "unat s1 * 256 + unat s2 = entrySeq"
proof -
  from assms obtain ib sb vb where ib: "writeUInt16BE entryId = Inr ib"
    and sb: "writeUInt16BE entrySeq = Inr sb" and vb: "entryValueToBuffer t v = Inr vb"
    and bs: "bs = [ENTRY_UPDATE] @ ib @ sb @ [t] @ vb"
    by (auto simp: entryUpdateMessageToBuffer_def split: sum.splits)
  from ib obtain i1 i2 where "ib = [i1, i2]" "unat i1 * 256 + unat i2 = entryId"
    by (rule writeUInt16BE_cases)
  moreover from sb obtain s1 s2 where "sb = [s1, s2]" "unat s1 * 256 + unat s2 = entrySeq"
    by (rule writeUInt16BE_cases)
  ultimately show ?thesis using that vb bs by simp
qed

lemma entryUpdate_rt:
  assumes "roundtripValue t v" and "valueDepth v \<le> fuel"
    and "entryUpdateMessageToBuffer t entryId entrySeq v = Inr bs"
  shows "entryUpdateMessageFromBuffer fuel bs 0
         = Inr (V3EntryUpdateMessage t entryId entrySeq v, length bs)"
proof -
  from assms(3) obtain i1 i2 s1 s2 vb where vb: "entryValueToBuffer t v = Inr vb"
    and bs: "bs = [ENTRY_UPDATE, i1, i2, s1, s2, t] @ vb"
    and id: "unat i1 * 256 + unat i2 = entryId" and seq: "unat s1 * 256 + unat s2 = entrySeq"
    by (rule entryUpdateMessageToBuffer_Inr)
  have ne: "vb \<noteq> []" using assms(1) vb by (rule value_nonempty)
  have ty: "inByteToV3EntryType (Some t)" using assms(1) by (rule roundtripValue_type)
  have "drop (0 + 6) bs = vb @ []" by (simp add: bs)
  with assms(1,2) vb
  have val: "entryValueFromBuffer fuel t bs (0 + 6) = Inr (v, 0 + 6 + length vb)"
    by (rule value_rt)
  have c: "checkBufferLength bs 0 7 = Inr ()"
    using ne by (cases vb) (simp_all add: checkBufferLength_def bs)
  have t0: "checkMessageType bs 0 ENTRY_UPDATE = Inr ()"
    by (simp add: checkMessageType_def byteAt_def bs)
  have r1: "readUInt16BE bs (0 + 1) = Inr entryId"
    using id by (simp add: readUInt16BE_def bs)
  have r2: "readUInt16BE bs (0 + 3) = Inr entrySeq"
    using seq by (simp add: readUInt16BE_def bs)
  have b5: "byteAt bs (0 + 5) = Some t"
    by (simp add: byteAt_def bs)
  show ?thesis
    unfolding entryUpdateMessageFromBuffer_def
    using c t0 r1 r2 b5 val ty by (simp add: numberOfByte_def bs)
qed

lemma entryUpdate_truncated:
  assumes "roundtripValue t v"
    and "entryUpdateMessageToBuffer t entryId entrySeq v = Inr bs" and "strict_prefix p bs"
  shows "throws (entryUpdateMessageFromBuffer fuel p 0)"
proof (cases "length p < 7")
  case True
  then show ?thesis
    unfolding entryUpdateMessageFromBuffer_def by (rule throws_short)
next
  case False
  from assms(2) obtain i1 i2 s1 s2 vb where vb: "entryValueToBuffer t v = Inr vb"
    and bs: "bs = [ENTRY_UPDATE, i1, i2, s1, s2, t] @ vb"
    by (rule entryUpdateMessageToBuffer_Inr)
  from False have "length [ENTRY_UPDATE, i1, i2, s1, s2, t] \<le> length p" by simp
  with assms(3) [unfolded bs] obtain us where p: "p = [ENTRY_UPDATE, i1, i2, s1, s2, t] @ us"
    and us: "strict_prefix us vb"
    by (rule strict_prefix_split)
  have ty: "inByteToV3EntryType (Some t)" using assms(1) by (rule roundtripValue_type)
  have "drop (0 + 6) p = us" by (simp add: p)
  with assms(1) vb have "\<exists>e. entryValueFromBuffer fuel t p (0 + 6) = Inl e \<and> e \<noteq> OutOfFuel"
    using us by (rule value_truncated)
  then obtain e where val: "entryValueFromBuffer fuel t p (0 + 6) = Inl e" and e: "e \<noteq> OutOfFuel"
    by blast
  have c: "checkBufferLength p 0 7 = Inr ()"
    using False by (simp add: checkBufferLength_def)
  have t0: "checkMessageType p 0 ENTRY_UPDATE = Inr ()"
    by (simp add: checkMessageType_def byteAt_def p)
  have r1: "\<exists>x. readUInt16BE p (0 + 1) = Inr x"
    by (simp add: readUInt16BE_def p)
  have r2: "\<exists>x. readUInt16BE p (0 + 3) = Inr x"
    by (simp add: readUInt16BE_def p)
  have b5: "byteAt p (0 + 5) = Some t"
    by (simp add: byteAt_def p)
  from r1 r2 show ?thesis
    unfolding entryUpdateMessageFromBuffer_def
    using c t0 b5 val ty e by (auto simp: numberOfByte_def)
qed

lemma entryAssignmentMessageToBuffer_Inr:
  assumes "entryAssignmentMessageToBuffer entryName t entryId entrySeq entryFlags v = Inr bs"
  obtains ib sb vb where "entryValueToBuffer t v = Inr vb"
    "writeUInt16BE entryId = Inr ib" "writeUInt16BE entrySeq = Inr sb"
    "bs = [ENTRY_ASSIGNMENT] @ encodeLEB128String entryName
          @ ([t] @ ib @ sb @ [entryFlagsToUInt8 entryFlags]) @ vb"
  using assms by (auto simp: entryAssignmentMessageToBuffer_def split: sum.splits)

lemma entryAssignment_rt:
  assumes "roundtripValue t v" and "valueDepth v \<le> fuel"
    and "entryAssignmentMessageToBuffer entryName t entryId entrySeq entryFlags v = Inr bs"
  shows "entryAssignmentMessageFromBuffer fuel bs 0
         = Inr (V3EntryAssignmentMessage entryName t entryId entrySeq entryFlags v, length bs)"
proof -
  let ?n = "encodeLEB128String entryName"
  let ?fl = "entryFlagsToUInt8 entryFlags"
  from assms(3) obtain ib sb vb where vb: "entryValueToBuffer t v = Inr vb"
    and ib: "writeUInt16BE entryId = Inr ib" and sb: "writeUInt16BE entrySeq = Inr sb"
    and bs: "bs = [ENTRY_ASSIGNMENT] @ ?n @ ([t] @ ib @ sb @ [?fl]) @ vb"
    by (rule entryAssignmentMessageToBuffer_Inr)
  have li: "length ib = 2" using ib by (rule writeUInt16BE_length)
  have ls: "length sb = 2" using sb by (rule writeUInt16BE_length)
  have ne: "vb \<noteq> []" using assms(1) vb by (rule value_nonempty)
  have ty: "inByteToV3EntryType (Some t)" using assms(1) by (rule roundtripValue_type)
  define o1 where "o1 = 0 + 1 + length ?n"
  have d1: "drop (0 + 1) bs = ?n @ t # ib @ sb @ ?fl # vb @ []"
    by (simp add: bs)
  have name: "decodeLEB128String bs (0 + 1) = Inr (entryName, o1)"
    unfolding o1_def using d1 by (rule decodeLEB128String_rt)
  have d2: "drop o1 bs = t # ib @ sb @ ?fl # vb @ []"
    unfolding o1_def using d1 by (rule drop_next)
  have b: "byteAt bs o1 = Some t"
    using d2 by (rule byteAt_drop)
  have d3: "drop (o1 + 1) bs = ib @ sb @ ?fl # vb @ []"
    using drop_next [of o1 bs "[t]"] d2 by simp
  have r1: "readUInt16BE bs (o1 + 1) = Inr entryId"
    using ib d3 by (rule readUInt16BE_rt)
  have d4: "drop (o1 + 3) bs = sb @ ?fl # vb @ []"
    using drop_next [OF d3] li by (simp add: eval_nat_numeral)
  have r2: "readUInt16BE bs (o1 + 3) = Inr entrySeq"
    using sb d4 by (rule readUInt16BE_rt)
  have d5: "drop (o1 + 5) bs = ?fl # vb @ []"
    using drop_next [OF d4] ls by (simp add: eval_nat_numeral)
  have f: "byteAt bs (o1 + 5) = Some ?fl"
    using d5 by (rule byteAt_drop)
  have d6: "drop (o1 + 6) bs = vb @ []"
    using drop_next [of "o1 + 5" bs "[?fl]"] d5 by (simp add: eval_nat_numeral)
  have val: "entryValueFromBuffer fuel t bs (o1 + 6) = Inr (v, o1 + 6 + length vb)"
    using assms(1,2) vb d6 by (rule value_rt)
  have len: "length bs = o1 + 6 + length vb"
    by (simp add: bs o1_def li ls)
  have "1 \<le> length ?n" by (rule encodeLEB128String_length)
  moreover have "1 \<le> length vb" using ne by (cases vb) simp_all
  ultimately have c: "checkBufferLength bs 0 9 = Inr ()"
    using len by (simp add: checkBufferLength_def o1_def)
  have t0: "checkMessageType bs 0 ENTRY_ASSIGNMENT = Inr ()"
    by (simp add: checkMessageType_def byteAt_def bs)
  show ?thesis
    unfolding entryAssignmentMessageFromBuffer_def
    using c t0 name b r1 r2 f val ty len by (simp add: numberOfByte_def flags_rt)
qed

lemma entryAssignment_truncated:
  assumes "roundtripValue t v"
    and "entryAssignmentMessageToBuffer entryName t entryId entrySeq entryFlags v = Inr bs"
    and "strict_prefix p bs"
  shows "throws (entryAssignmentMessageFromBuffer fuel p 0)"
proof (cases "length p < 9")
  case True
  then show ?thesis
    unfolding entryAssignmentMessageFromBuffer_def by (rule throws_short)
next
  case False
  let ?n = "encodeLEB128String entryName"
  let ?fl = "entryFlagsToUInt8 entryFlags"
  from assms(2) obtain ib sb vb where vb: "entryValueToBuffer t v = Inr vb"
    and ib: "writeUInt16BE entryId = Inr ib" and sb: "writeUInt16BE entrySeq = Inr sb"
    and bs: "bs = [ENTRY_ASSIGNMENT] @ ?n @ ([t] @ ib @ sb @ [?fl]) @ vb"
    by (rule entryAssignmentMessageToBuffer_Inr)
  let ?h = "[t] @ ib @ sb @ [?fl]"
  have lh: "length ?h = 6"
    using writeUInt16BE_length [OF ib] writeUInt16BE_length [OF sb] by simp
  have ne: "vb \<noteq> []" using assms(1) vb by (rule value_nonempty)
  from False have "length [ENTRY_ASSIGNMENT] \<le> length p" by simp
  with assms(3) [unfolded bs] obtain q where p: "p = [ENTRY_ASSIGNMENT] @ q"
    and q: "strict_prefix q (?n @ ?h @ vb)"
    by (rule strict_prefix_split)
  have c: "checkBufferLength p 0 9 = Inr ()"
    using False by (simp add: checkBufferLength_def)
  have t0: "checkMessageType p 0 ENTRY_ASSIGNMENT = Inr ()"
    by (simp add: checkMessageType_def byteAt_def p)
  have d1: "drop (0 + 1) p = q" by (simp add: p)
  from q consider "strict_prefix q ?n" | q1 where "q = ?n @ q1" "strict_prefix q1 (?h @ vb)"
    using strict_prefix_append by blast
  then show ?thesis
  proof cases
    case 1
    with d1 have "decodeLEB128String p (0 + 1) = Inl InvalidBufferLengthError"
      by (rule decodeLEB128String_truncated)
    with c t0 show ?thesis
      unfolding entryAssignmentMessageFromBuffer_def by simp
  next
    case 2
    define o1 where "o1 = 0 + 1 + length ?n"
    from d1 2(1) have d1': "drop (0 + 1) p = ?n @ q1" by simp
    have name: "decodeLEB128String p (0 + 1) = Inr (entryName, o1)"
      unfolding o1_def using d1' by (rule decodeLEB128String_rt)
    have d2: "drop o1 p = q1"
      unfolding o1_def using d1' by (rule drop_next)
    have "strict_prefix (drop (length ?h) q1) vb"
      using 2(2) ne by (rule strict_prefix_drop)
    then have us: "strict_prefix (drop 6 q1) vb"
      unfolding lh .
    have d6: "drop (o1 + 6) p = drop 6 q1"
      using d2 by (metis add.commute drop_drop)
    have K: "\<exists>e. entryValueFromBuffer fuel t p (o1 + 6) = Inl e \<and> e \<noteq> OutOfFuel"
      using assms(1) vb d6 us by (rule value_truncated)
    have b: "byteAt p o1 = Some t" if "byteAt p o1 \<noteq> None"
    proof -
      from that d2 have "q1 \<noteq> []"
        by (auto simp: byteAt_def)
      with 2(2) obtain q2 where "q1 = t # q2"
        by (cases q1) auto
      with d2 show ?thesis by (simp add: byteAt_drop)
    qed
    have ty: "numberOfByte (byteAt p o1) = t" if "inByteToV3EntryType (byteAt p o1)"
      using that b by (cases "byteAt p o1") (simp_all add: inByteToV3EntryType_def numberOfByte_def)
    from K obtain e where val: "entryValueFromBuffer fuel t p (o1 + 6) = Inl e"
      and e: "e \<noteq> OutOfFuel" by blast
    show ?thesis
      unfolding entryAssignmentMessageFromBuffer_def Let_def
      using c t0 name val e ty
      by (auto simp: add.assoc split: sum.splits)
  qed
qed

subsection \<open>RPC_EXECUTE and RPC_RESPONSE\<close>

lemma rpcExecuteMessageToBuffer_Inr:
  assumes "rpcExecuteMessageToBuffer defId uid ps = Inr bs"
  obtains d1 d2 u1 u2 pbs where "parametersToBuffers ps = Inr pbs"
    "bs = [RPC_EXECUTE, d1, d2, u1, u2] @ toUnsignedLEB128 (length ps) @ concat pbs"
    "unat d1 * 256 + unat d2 = defId" "unat u1 * 256 + unat u2 = uid"
proof -
  from assms obtain db ub pbs where db: "writeUInt16BE defId = Inr db"
    and ub: "writeUInt16BE uid = Inr ub" and pbs: "parametersToBuffers ps = Inr pbs"
    and bs: "bs = ([RPC_EXECUTE] @ db) @ ub @ toUnsignedLEB128 (length ps) @ concat pbs"
    by (auto simp: rpcExecuteMessageToBuffer_def Let_def split: sum.splits)
  from db obtain d1 d2 where "db = [d1, d2]" "unat d1 * 256 + unat d2 = defId"
    by (rule writeUInt16BE_cases)
  moreover from ub obtain u1 u2 where "ub = [u1, u2]" "unat u1 * 256 + unat u2 = uid"
    by (rule writeUInt16BE_cases)
  ultimately show ?thesis using that pbs bs by simp
qed

lemma rpcExecute_rt:
  assumes "defs defId = Some d" and "map p_type (parameters d) = map p_type ps"
    and "map p_name (parameters d) = map p_name ps"
    and "roundtripParameters ps" and "parametersDepth ps \<le> fuel"
    and "rpcExecuteMessageToBuffer defId uid ps = Inr bs"
  shows "rpcExecuteMessageFromBuffer fuel defs bs 0
         = Inr (V3RPCExecuteMessage defId uid ps, length bs)"
proof -
  let ?l = "toUnsignedLEB128 (length ps)"
  from assms(6) obtain d1 d2 u1 u2 pbs where pbs: "parametersToBuffers ps = Inr pbs"
    and bs: "bs = [RPC_EXECUTE, d1, d2, u1, u2] @ ?l @ concat pbs"
    and id: "unat d1 * 256 + unat d2 = defId" and uid: "unat u1 * 256 + unat u2 = uid"
    by (rule rpcExecuteMessageToBuffer_Inr)
  have n: "length (parameters d) = length ps"
    using assms(2) by (rule map_eq_imp_length_eq)
  have d5: "drop (0 + 5) bs = ?l @ concat pbs @ []" by (simp add: bs)
  define o1 where "o1 = 0 + 5 + length ?l"
  have l: "fromUnsignedLEB128 bs (0 + 5) = Inr (length ps, o1)"
    unfolding o1_def using d5 by (rule fromUnsignedLEB128_rt)
  have d6: "drop o1 bs = concat pbs @ []"
    unfolding o1_def using d5 by (rule drop_next)
  have loop: "rpcParametersLoop fuel (parameters d) bs o1 = Inr (ps, o1 + length (concat pbs))"
    using assms(4,5) pbs assms(2,3) d6 by (rule rpcParametersLoop_rt)
  have len: "length bs = o1 + length (concat pbs)"
    by (simp add: bs o1_def)
  have c: "checkBufferLength bs 0 6 = Inr ()"
    using toUnsignedLEB128_nonempty [of "length ps"]
    by (cases ?l) (simp_all add: checkBufferLength_def bs)
  have t0: "checkMessageType bs 0 RPC_EXECUTE = Inr ()"
    by (simp add: checkMessageType_def byteAt_def bs)
  have r1: "readUInt16BE bs (0 + 1) = Inr defId"
    using id by (simp add: readUInt16BE_def bs)
  have r2: "readUInt16BE bs (0 + 3) = Inr uid"
    using uid by (simp add: readUInt16BE_def bs)
  show ?thesis
    unfolding rpcExecuteMessageFromBuffer_def
    using c t0 r1 r2 l loop assms(1) n len by simp
qed

lemma rpcExecute_truncated:
  assumes "defs defId = Some d" and "map p_type (parameters d) = map p_type ps"
    and "roundtripParameters ps" and "parametersDepth ps \<le> fuel"
    and "rpcExecuteMessageToBuffer defId uid ps = Inr bs" and "strict_prefix p bs"
  shows "throws (rpcExecuteMessageFromBuffer fuel defs p 0)"
proof (cases "length p < 6")
  case True
  then show ?thesis
    unfolding rpcExecuteMessageFromBuffer_def by (rule throws_short)
next
  case False
  let ?l = "toUnsignedLEB128 (length ps)"
  from assms(5) obtain d1 d2 u1 u2 pbs where pbs: "parametersToBuffers ps = Inr pbs"
    and bs: "bs = [RPC_EXECUTE, d1, d2, u1, u2] @ ?l @ concat pbs"
    and id: "unat d1 * 256 + unat d2 = defId"
    by (rule rpcExecuteMessageToBuffer_Inr)
  have n: "length (parameters d) = length ps"
    using assms(2) by (rule map_eq_imp_length_eq)
  from False have "length [RPC_EXECUTE, d1, d2, u1, u2] \<le> length p" by simp
  with assms(6) [unfolded bs] obtain us where p: "p = [RPC_EXECUTE, d1, d2, u1, u2] @ us"
    and us: "strict_prefix us (?l @ concat pbs)"
    by (rule strict_prefix_split)
  have c: "checkBufferLength p 0 6 = Inr ()"
    using False by (simp add: checkBufferLength_def)
  have t0: "checkMessageType p 0 RPC_EXECUTE = Inr ()"
    by (simp add: checkMessageType_def byteAt_def p)
  have r1: "readUInt16BE p (0 + 1) = Inr defId"
    using id by (simp add: readUInt16BE_def p)
  have r2: "\<exists>x. readUInt16BE p (0 + 3) = Inr x"
    by (simp add: readUInt16BE_def p)
  have d5: "drop (0 + 5) p = us" by (simp add: p)
  from us consider "strict_prefix us ?l" | us2 where "us = ?l @ us2" "strict_prefix us2 (concat pbs)"
    using strict_prefix_append by blast
  then show ?thesis
  proof cases
    case 1
    with d5 have "fromUnsignedLEB128 p (0 + 5) = Inl InvalidBufferLengthError"
      by (rule fromUnsignedLEB128_truncated)
    with c t0 r1 r2 assms(1) show ?thesis
      unfolding rpcExecuteMessageFromBuffer_def by auto
  next
    case 2
    define o1 where "o1 = 0 + 5 + length ?l"
    from d5 2(1) have d5': "drop (0 + 5) p = ?l @ us2" by simp
    have l: "fromUnsignedLEB128 p (0 + 5) = Inr (length ps, o1)"
      unfolding o1_def using d5' by (rule fromUnsignedLEB128_rt)
    have d6: "drop o1 p = us2"
      unfolding o1_def using d5' by (rule drop_next)
    have "\<exists>e. rpcParametersLoop fuel (parameters d) p o1 = Inl e \<and> e \<noteq> OutOfFuel"
      using assms(3,4) pbs assms(2) d6 2(2) by (rule rpcParametersLoop_truncated)
    then obtain e where "rpcParametersLoop fuel (parameters d) p o1 = Inl e" "e \<noteq> OutOfFuel"
      by blast
    with c t0 r1 r2 l assms(1) n show ?thesis
      unfolding rpcExecuteMessageFromBuffer_def by auto
  qed
qed

lemma rpcResponseMessageToBuffer_Inr:
  assumes "rpcResponseMessageToBuffer defId uid ps = Inr bs"
  obtains d1 d2 u1 u2 pbs where "resultsToBuffers ps = Inr pbs"
    "bs = [RPC_RESPONSE, d1, d2, u1, u2] @ toUnsignedLEB128 (length ps) @ concat pbs"
    "unat d1 * 256 + unat d2 = defId" "unat u1 * 256 + unat u2 = uid"
proof -
  from assms obtain db ub pbs where db: "writeUInt16BE defId = Inr db"
    and ub: "writeUInt16BE uid = Inr ub" and pbs: "resultsToBuffers ps = Inr pbs"
    and bs: "bs = ([RPC_RESPONSE] @ db) @ ub @ toUnsignedLEB128 (length ps) @ concat pbs"
    by (auto simp: rpcResponseMessageToBuffer_def Let_def split: sum.splits)
  from db obtain d1 d2 where "db = [d1, d2]" "unat d1 * 256 + unat d2 = defId"
    by (rule writeUInt16BE_cases)
  moreover from ub obtain u1 u2 where "ub = [u1, u2]" "unat u1 * 256 + unat u2 = uid"
    by (rule writeUInt16BE_cases)
  ultimately show ?thesis using that pbs bs by simp
qed

lemma rpcResponse_rt:
  assumes "defs defId = Some d" and "map r_type (results d) = map r_type ps"
    and "map r_name (results d) = map r_name ps"
    and "list_all (\<lambda>r. roundtripValue (r_type r) (r_value r)) ps" and "resultsDepth ps \<le> fuel"
    and "rpcResponseMessageToBuffer defId uid ps = Inr bs"
  shows "rpcResponseMessageFromBuffer fuel defs bs 0
         = Inr (V3RPCResponseMessage defId uid ps, length bs)"
proof -
  let ?l = "toUnsignedLEB128 (length ps)"
  from assms(6) obtain d1 d2 u1 u2 pbs where pbs: "resultsToBuffers ps = Inr pbs"
    and bs: "bs = [RPC_RESPONSE, d1, d2, u1, u2] @ ?l @ concat pbs"
    and id: "unat d1 * 256 + unat d2 = defId" and uid: "unat u1 * 256 + unat u2 = uid"
    by (rule rpcResponseMessageToBuffer_Inr)
  have n: "length (results d) = length ps"
    using assms(2) by (rule map_eq_imp_length_eq)
  have d5: "drop (0 + 5) bs = ?l @ concat pbs @ []" by (simp add: bs)
  define o1 where "o1 = 0 + 5 + length ?l"
  have l: "fromUnsignedLEB128 bs (0 + 5) = Inr (length ps, o1)"
    unfolding o1_def using d5 by (rule fromUnsignedLEB128_rt)
  have d6: "drop o1 bs = concat pbs @ []"
    unfolding o1_def using d5 by (rule drop_next)
  have loop: "rpcResultsLoop fuel (results d) bs o1 = Inr (ps, o1 + length (concat pbs))"
    using assms(4,5) pbs assms(2,3) d6 by (rule rpcResultsLoop_rt)
  have len: "length bs = o1 + length (concat pbs)"
    by (simp add: bs o1_def)
  have c: "checkBufferLength bs 0 6 = Inr ()"
    using toUnsignedLEB128_nonempty [of "length ps"]
    by (cases ?l) (simp_all add: checkBufferLength_def bs)
  have t0: "checkMessageType bs 0 RPC_RESPONSE = Inr ()"
    by (simp add: checkMessageType_def byteAt_def bs)
  have r1: "readUInt16BE bs (0 + 1) = Inr defId"
    using id by (simp add: readUInt16BE_def bs)
  have r2: "readUInt16BE bs (0 + 3) = Inr uid"
    using uid by (simp add: readUInt16BE_def bs)
  show ?thesis
    unfolding rpcResponseMessageFromBuffer_def
    using c t0 r1 r2 l loop assms(1) n len by simp
qed

lemma rpcResponse_truncated:
  assumes "defs defId = Some d" and "map r_type (results d) = map r_type ps"
    and "list_all (\<lambda>r. roundtripValue (r_type r) (r_value r)) ps" and "resultsDepth ps \<le> fuel"
    and "rpcResponseMessageToBuffer defId uid ps = Inr bs" and "strict_prefix p bs"
  shows "throws (rpcResponseMessageFromBuffer fuel defs p 0)"
proof (cases "length p < 6")
  case True
  then show ?thesis
    unfolding rpcResponseMessageFromBuffer_def by (rule throws_short)
next
  case False
  let ?l = "toUnsignedLEB128 (length ps)"
  from assms(5) obtain d1 d2 u1 u2 pbs where pbs: "resultsToBuffers ps = Inr pbs"
    and bs: "bs = [RPC_RESPONSE, d1, d2, u1, u2] @ ?l @ concat pbs"
    and id: "unat d1 * 256 + unat d2 = defId"
    by (rule rpcResponseMessageToBuffer_Inr)
  have n: "length (results d) = length ps"
    using assms(2) by (rule map_eq_imp_length_eq)
  from False have "length [RPC_RESPONSE, d1, d2, u1, u2] \<le> length p" by simp
  with assms(6) [unfolded bs] obtain us where p: "p = [RPC_RESPONSE, d1, d2, u1, u2] @ us"
    and us: "strict_prefix us (?l @ concat pbs)"
    by (rule strict_prefix_split)
  have c: "checkBufferLength p 0 6 = Inr ()"
    using False by (simp add: checkBufferLength_def)
  have t0: "checkMessageType p 0 RPC_RESPONSE = Inr ()"
    by (simp add: checkMessageType_def byteAt_def p)
  have r1: "readUInt16BE p (0 + 1) = Inr defId"
    using id by (simp add: readUInt16BE_def p)
  have r2: "\<exists>x. readUInt16BE p (0 + 3) = Inr x"
    by (simp add: readUInt16BE_def p)
  have d5: "drop (0 + 5) p = us" by (simp add: p)
  from us consider "strict_prefix us ?l" | us2 where "us = ?l @ us2" "strict_prefix us2 (concat pbs)"
    using strict_prefix_append by blast
  then show ?thesis
  proof cases
    case 1
    with d5 have "fromUnsignedLEB128 p (0 + 5) = Inl InvalidBufferLengthError"
      by (rule fromUnsignedLEB128_truncated)
    with c t0 r1 r2 assms(1) show ?thesis
      unfolding rpcResponseMessageFromBuffer_def by auto
  next
    case 2
    define o1 where "o1 = 0 + 5 + length ?l"
    from d5 2(1) have d5': "drop (0 + 5) p = ?l @ us2" by simp
    have l: "fromUnsignedLEB128 p (0 + 5) = Inr (length ps, o1)"
      unfolding o1_def using d5' by (rule fromUnsignedLEB128_rt)
    have d6: "drop o1 p = us2"
      unfolding o1_def using d5' by (rule drop_next)
    have "\<exists>e. rpcResultsLoop fuel (results d) p o1 = Inl e \<and> e \<noteq> OutOfFuel"
      using assms(3,4) pbs assms(2) d6 2(2) by (rule rpcResultsLoop_truncated)
    then obtain e where "rpcResultsLoop fuel (results d) p o1 = Inl e" "e \<noteq> OutOfFuel"
      by blast
    with c t0 r1 r2 l assms(1) n show ?thesis
      unfolding rpcResponseMessageFromBuffer_def by auto
  qed
qed

subsection \<open>Every message\<close>

lemma first_byte_prefix:
  assumes "strict_prefix p bs" and "p \<noteq> []" and "byteAt bs 0 = Some t"
  shows "byteAt p 0 = Some t"
proof -
  from assms(2) have l: "0 < length p" by simp
  from assms(1) have "prefix p bs" by (simp add: strict_prefix_def)
  then have "p ! 0 = bs ! 0" using l by (rule prefix_nth)
  moreover from assms(3) have "bs ! 0 = t" by (simp add: byteAt_def split: if_splits)
  ultimately show ?thesis using l by (simp add: byteAt_def)
qed

lemma first_byte_decoded:
  "clientHelloMessageFromBuffer buf off = Inr r \<Longrightarrow> byteAt buf off = Some CLIENT_HELLO"
  "protoVersionUnsupportedMessageFromBuffer buf off = Inr r \<Longrightarrow>
     byteAt buf off = Some PROTO_VERSION_UNSUPPORTED"
  "serverHelloMessageFromBuffer buf off = Inr r \<Longrightarrow> byteAt buf off = Some SERVER_HELLO"
  "clientHelloCompleteMessageFromBuffer buf off = Inr r \<Longrightarrow>
     byteAt buf off = Some CLIENT_HELLO_COMPLETE"
  "entryAssignmentMessageFromBuffer fuel buf off = Inr r \<Longrightarrow>
     byteAt buf off = Some ENTRY_ASSIGNMENT"
  "entryUpdateMessageFromBuffer fuel buf off = Inr r \<Longrightarrow> byteAt buf off = Some ENTRY_UPDATE"
  "entryFlagsUpdateMessageFromBuffer buf off = Inr r \<Longrightarrow>
     byteAt buf off = Some ENTRY_FLAGS_UPDATE"
  "entryDeleteMessageFromBuffer buf off = Inr r \<Longrightarrow> byteAt buf off = Some ENTRY_DELETE"
  "clearAllEntriesMessageFromBuffer buf off = Inr r \<Longrightarrow>
     byteAt buf off = Some CLEAR_ALL_ENTRIES"
  "rpcExecuteMessageFromBuffer fuel defs buf off = Inr r \<Longrightarrow> byteAt buf off = Some RPC_EXECUTE"
  "rpcResponseMessageFromBuffer fuel defs buf off = Inr r \<Longrightarrow>
     byteAt buf off = Some RPC_RESPONSE"
  by (simp_all add: clientHelloMessageFromBuffer_def protoVersionUnsupportedMessageFromBuffer_def
      serverHelloMessageFromBuffer_def clientHelloCompleteMessageFromBuffer_def
      entryAssignmentMessageFromBuffer_def entryUpdateMessageFromBuffer_def
      entryFlagsUpdateMessageFromBuffer_def entryDeleteMessageFromBuffer_def
      clearAllEntriesMessageFromBuffer_def rpcExecuteMessageFromBuffer_def
      rpcResponseMessageFromBuffer_def checkMessageType_def
      split: sum.splits if_splits)

lemma message_decoded:
  assumes "roundtripMessage defs M" and "messageDepth M \<le> fuel"
    and "messageToBuffer M = Inr bs"
  shows "getNextAvailableMessage fuel defs bs 0 = Inr (Some (M, length bs))"
proof (cases M)
  case V3KeepAliveMessage
  with assms(3) have "bs = [KEEP_ALIVE]"
    by (simp add: keepAliveMessageToBuffer_def)
  with V3KeepAliveMessage show ?thesis
    by (simp add: dispatch_KEEP_ALIVE byteAt_def)
next
  case (V3ClientHelloMessage major minor ident)
  with assms(1,3) have bs: "bs = clientHelloMessageToBuffer 3 0 ident"
    and M: "M = V3ClientHelloMessage 3 0 ident"
    by simp_all
  note r = clientHello_rt [of ident]
  from first_byte_decoded(1) [OF r] have "byteAt bs 0 = Some CLIENT_HELLO"
    by (simp add: bs)
  then show ?thesis
    using r by (simp add: dispatch_CLIENT_HELLO bs M)
next
  case (V3ProtoVersionUnsupportedMessage major minor)
  with assms(1,3) have bs: "bs = protoVersionUnsupportedMessageToBuffer major minor"
    and m: "major < 256" "minor < 256"
    by simp_all
  note r = protoVersionUnsupported_rt [OF m]
  from first_byte_decoded(2) [OF r] have "byteAt bs 0 = Some PROTO_VERSION_UNSUPPORTED"
    by (simp add: bs)
  then show ?thesis
    using r by (simp add: dispatch_PROTO_VERSION_UNSUPPORTED bs V3ProtoVersionUnsupportedMessage)
next
  case V3ServerHelloCompleteMessage
  with assms(3) have "bs = [SERVER_HELLO_COMPLETE]"
    by (simp add: serverHelloCompleteMessageToBuffer_def)
  with V3ServerHelloCompleteMessage show ?thesis
    by (simp add: dispatch_SERVER_HELLO_COMPLETE byteAt_def)
next
  case (V3ServerHelloMessage seen ident)
  with assms(3) have bs: "bs = serverHelloMessageToBuffer seen ident"
    by simp
  note r = serverHello_rt [of seen ident]
  from first_byte_decoded(3) [OF r] have "byteAt bs 0 = Some SERVER_HELLO"
    by (simp add: bs)
  then show ?thesis
    using r by (simp add: dispatch_SERVER_HELLO bs V3ServerHelloMessage)
next
  case V3ClientHelloCompleteMessage
  with assms(3) have bs: "bs = clientHelloCompleteMessageToBuffer"
    by simp
  note r = clientHelloComplete_rt
  from first_byte_decoded(4) [OF r] have "byteAt bs 0 = Some CLIENT_HELLO_COMPLETE"
    by (simp add: bs)
  then show ?thesis
    using r by (simp add: dispatch_CLIENT_HELLO_COMPLETE bs V3ClientHelloCompleteMessage)
next
  case (V3EntryAssignmentMessage entryName t entryId entrySeq entryFlags v)
  with assms have wf: "roundtripValue t v" and dep: "valueDepth v \<le> fuel"
    and e: "entryAssignmentMessageToBuffer entryName t entryId entrySeq entryFlags v = Inr bs"
    by simp_all
  note r = entryAssignment_rt [OF wf dep e]
  from first_byte_decoded(5) [OF r] have "byteAt bs 0 = Some ENTRY_ASSIGNMENT" .
  then show ?thesis
    using r by (simp add: dispatch_ENTRY_ASSIGNMENT V3EntryAssignmentMessage)
next
  case (V3EntryUpdateMessage t entryId entrySeq v)
  with assms have wf: "roundtripValue t v" and dep: "valueDepth v \<le> fuel"
    and e: "entryUpdateMessageToBuffer t entryId entrySeq v = Inr bs"
    by simp_all
  note r = entryUpdate_rt [OF wf dep e]
  from first_byte_decoded(6) [OF r] have "byteAt bs 0 = Some ENTRY_UPDATE" .
  then show ?thesis
    using r by (simp add: dispatch_ENTRY_UPDATE V3EntryUpdateMessage)
next
  case (V3EntryFlagsUpdateMessage entryId entryFlags)
  with assms have e: "entryFlagsUpdateMessageToBuffer entryId entryFlags = Inr bs"
    by simp
  note r = entryFlagsUpdate_rt [OF e]
  from first_byte_decoded(7) [OF r] have "byteAt bs 0 = Some ENTRY_FLAGS_UPDATE" .
  then show ?thesis
    using r by (simp add: dispatch_ENTRY_FLAGS_UPDATE V3EntryFlagsUpdateMessage)
next
  case (V3EntryDeleteMessage entryId)
  with assms have e: "entryDeleteMessageToBuffer entryId = Inr bs"
    by simp
  note r = entryDelete_rt [OF e]
  from first_byte_decoded(8) [OF r] have "byteAt bs 0 = Some ENTRY_DELETE" .
  then show ?thesis
    using r by (simp add: dispatch_ENTRY_DELETE V3EntryDeleteMessage)
next
  case V3ClearAllEntriesMessage
  with assms have e: "clearAllEntriesMessageToBuffer = Inr bs"
    by simp
  note r = clearAllEntries_rt [OF e]
  from first_byte_decoded(9) [OF r] have "byteAt bs 0 = Some CLEAR_ALL_ENTRIES" .
  then show ?thesis
    using r by (simp add: dispatch_CLEAR_ALL_ENTRIES V3ClearAllEntriesMessage)
next
  case (V3RPCExecuteMessage defId uid ps)
  with assms obtain d where d: "defs defId = Some d"
    and ty: "map p_type (parameters d) = map p_type ps"
    and nm: "map p_name (parameters d) = map p_name ps"
    and wf: "roundtripParameters ps" and dep: "parametersDepth ps \<le> fuel"
    and e: "rpcExecuteMessageToBuffer defId uid ps = Inr bs"
    by (auto split: option.splits)
  note r = rpcExecute_rt [where defs = defs and defId = defId, OF d ty nm wf dep e]
  from first_byte_decoded(10) [OF r] have "byteAt bs 0 = Some RPC_EXECUTE" .
  then show ?thesis
    using r by (simp add: dispatch_RPC_EXECUTE V3RPCExecuteMessage)
next
  case (V3RPCResponseMessage defId uid rs)
  with assms obtain d where d: "defs defId = Some d"
    and ty: "map r_type (results d) = map r_type rs"
    and nm: "map r_name (results d) = map r_name rs"
    and wf: "list_all (\<lambda>r. roundtripValue (r_type r) (r_value r)) rs"
    and dep: "resultsDepth rs \<le> fuel"
    and e: "rpcResponseMessageToBuffer defId uid rs = Inr bs"
    by (auto split: option.splits)
  note r = rpcResponse_rt [where defs = defs and defId = defId, OF d ty nm wf dep e]
  from first_byte_decoded(11) [OF r] have "byteAt bs 0 = Some RPC_RESPONSE" .
  then show ?thesis
    using r by (simp add: dispatch_RPC_RESPONSE V3RPCResponseMessage)
qed

lemma message_truncated:
  assumes "roundtripMessage defs M" and "messageDepth M \<le> fuel"
    and "messageToBuffer M = Inr bs" and "strict_prefix p bs"
  shows "getNextAvailableMessage fuel defs p 0 = Inr None"
proof (cases "p = []")
  case True
  then show ?thesis
    by (simp add: getNextAvailableMessage_end byteAt_def)
next
  case False
  note first = first_byte_prefix [OF assms(4) False]
  show ?thesis
  proof (cases M)
    case V3KeepAliveMessage
    with assms(3) have "bs = [KEEP_ALIVE]"
      by (simp add: keepAliveMessageToBuffer_def)
    with assms(4) False show ?thesis
      by (cases p) auto
  next
    case (V3ClientHelloMessage major minor ident)
    with assms(1,3) have bs: "bs = clientHelloMessageToBuffer 3 0 ident"
      by simp_all
    note r = clientHello_rt [of ident]
    from first_byte_decoded(1) [OF r] have "byteAt p 0 = Some CLIENT_HELLO"
      by (intro first) (simp add: bs)
    moreover have "throws (clientHelloMessageFromBuffer p 0)"
      using assms(4) [unfolded bs] by (rule clientHello_truncated)
    ultimately show ?thesis
      by (simp add: dispatch_CLIENT_HELLO catchUndefined_throws)
  next
    case (V3ProtoVersionUnsupportedMessage major minor)
    with assms(1,3) have bs: "bs = protoVersionUnsupportedMessageToBuffer major minor"
      and m: "major < 256" "minor < 256"
      by simp_all
    note r = protoVersionUnsupported_rt [OF m]
    from first_byte_decoded(2) [OF r] have "byteAt p 0 = Some PROTO_VERSION_UNSUPPORTED"
      by (intro first) (simp add: bs)
    moreover have "throws (protoVersionUnsupportedMessageFromBuffer p 0)"
      using assms(4) [unfolded bs] by (rule protoVersionUnsupported_truncated)
    ultimately show ?thesis
      by (simp add: dispatch_PROTO_VERSION_UNSUPPORTED catchUndefined_throws)
  next
    case V3ServerHelloCompleteMessage
    with assms(3) have "bs = [SERVER_HELLO_COMPLETE]"
      by (simp add: serverHelloCompleteMessageToBuffer_def)
    with assms(4) False show ?thesis
      by (cases p) auto
  next
    case (V3ServerHelloMessage seen ident)
    with assms(3) have bs: "bs = serverHelloMessageToBuffer seen ident"
      by simp
    note r = serverHello_rt [of seen ident]
    from first_byte_decoded(3) [OF r] have "byteAt p 0 = Some SERVER_HELLO"
      by (intro first) (simp add: bs)
    moreover have "throws (serverHelloMessageFromBuffer p 0)"
      using assms(4) [unfolded bs] by (rule serverHello_truncated)
    ultimately show ?thesis
      by (simp add: dispatch_SERVER_HELLO catchUndefined_throws)
  next
    case V3ClientHelloCompleteMessage
    with assms(3) have "bs = [CLIENT_HELLO_COMPLETE]"
      by (simp add: clientHelloCompleteMessageToBuffer_def)
    with assms(4) False show ?thesis
      by (cases p) auto
  next
    case (V3EntryAssignmentMessage entryName t entryId entrySeq entryFlags v)
    with assms have wf: "roundtripValue t v" and dep: "valueDepth v \<le> fuel"
      and e: "entryAssignmentMessageToBuffer entryName t entryId entrySeq entryFlags v = Inr bs"
      by simp_all
    note r = entryAssignment_rt [OF wf dep e]
    from first_byte_decoded(5) [OF r] have "byteAt p 0 = Some ENTRY_ASSIGNMENT"
      by (rule first)
    moreover have "throws (entryAssignmentMessageFromBuffer fuel p 0)"
      using wf e assms(4) by (rule entryAssignment_truncated)
    ultimately show ?thesis
      by (simp add: dispatch_ENTRY_ASSIGNMENT catchUndefined_throws)
  next
    case (V3EntryUpdateMessage t entryId entrySeq v)
    with assms have wf: "roundtripValue t v" and dep: "valueDepth v \<le> fuel"
      and e: "entryUpdateMessageToBuffer t entryId entrySeq v = Inr bs"
      by simp_all
    note r = entryUpdate_rt [OF wf dep e]
    from first_byte_decoded(6) [OF r] have "byteAt p 0 = Some ENTRY_UPDATE"
      by (rule first)
    moreover have "throws (entryUpdateMessageFromBuffer fuel p 0)"
      using wf e assms(4) by (rule entryUpdate_truncated)
    ultimately show ?thesis
      by (simp add: dispatch_ENTRY_UPDATE catchUndefined_throws)
  next
    case (V3EntryFlagsUpdateMessage entryId entryFlags)
    with assms have e: "entryFlagsUpdateMessageToBuffer entryId entryFlags = Inr bs"
      by simp
    note r = entryFlagsUpdate_rt [OF e]
    from first_byte_decoded(7) [OF r] have "byteAt p 0 = Some ENTRY_FLAGS_UPDATE"
      by (rule first)
    moreover have "throws (entryFlagsUpdateMessageFromBuffer p 0)"
      using e assms(4) by (rule entryFlagsUpdate_truncated)
    ultimately show ?thesis
      by (simp add: dispatch_ENTRY_FLAGS_UPDATE catchUndefined_throws)
  next
    case (V3EntryDeleteMessage entryId)
    with assms have e: "entryDeleteMessageToBuffer entryId = Inr bs"
      by simp
    note r = entryDelete_rt [OF e]
    from first_byte_decoded(8) [OF r] have "byteAt p 0 = Some ENTRY_DELETE"
      by (rule first)
    moreover have "throws (entryDeleteMessageFromBuffer p 0)"
      using e assms(4) by (rule entryDelete_truncated)
    ultimately show ?thesis
      by (simp add: dispatch_ENTRY_DELETE catchUndefined_throws)
  next
    case V3ClearAllEntriesMessage
    with assms have e: "clearAllEntriesMessageToBuffer = Inr bs"
      by simp
    note r = clearAllEntries_rt [OF e]
    from first_byte_decoded(9) [OF r] have "byteAt p 0 = Some CLEAR_ALL_ENTRIES"
      by (rule first)
    moreover have "throws (clearAllEntriesMessageFromBuffer p 0)"
      using e assms(4) by (rule clearAllEntries_truncated)
    ultimately show ?thesis
      by (simp add: dispatch_CLEAR_ALL_ENTRIES catchUndefined_throws)
  next
    case (V3RPCExecuteMessage defId uid ps)
    with assms obtain d where d: "defs defId = Some d"
      and ty: "map p_type (parameters d) = map p_type ps"
      and nm: "map p_name (parameters d) = map p_name ps"
      and wf: "roundtripParameters ps" and dep: "parametersDepth ps \<le> fuel"
      and e: "rpcExecuteMessageToBuffer defId uid ps = Inr bs"
      by (auto split: option.splits)
    note r = rpcExecute_rt [where defs = defs and defId = defId, OF d ty nm wf dep e]
    from first_byte_decoded(10) [OF r] have "byteAt p 0 = Some RPC_EXECUTE"
      by (rule first)
    moreover have "throws (rpcExecuteMessageFromBuffer fuel defs p 0)"
      using rpcExecute_truncated [where defs = defs and defId = defId, OF d ty wf dep e assms(4)] .
    ultimately show ?thesis
      by (simp add: dispatch_RPC_EXECUTE catchUndefined_throws)
  next
    case (V3RPCResponseMessage defId uid rs)
    with assms obtain d where d: "defs defId = Some d"
      and ty: "map r_type (results d) = map r_type rs"
      and nm: "map r_name (results d) = map r_name rs"
      and wf: "list_all (\<lambda>r. roundtripValue (r_type r) (r_value r)) rs"
      and dep: "resultsDepth rs \<le> fuel"
      and e: "rpcResponseMessageToBuffer defId uid rs = Inr bs"
      by (auto split: option.splits)
    note r = rpcResponse_rt [where defs = defs and defId = defId, OF d ty nm wf dep e]
    from first_byte_decoded(11) [OF r] have "byteAt p 0 = Some RPC_RESPONSE"
      by (rule first)
    moreover have "throws (rpcResponseMessageFromBuffer fuel defs p 0)"
      using rpcResponse_truncated [where defs = defs and defId = defId, OF d ty wf dep e assms(4)] .
    ultimately show ?thesis
      by (simp add: dispatch_RPC_RESPONSE catchUndefined_throws)
  qed
qed

lemma catchUndefined_Inl: "catchUndefined r = Inl e \<Longrightarrow> e = OutOfFuel"
  by (cases r) (auto simp: catchUndefined_def split: error.splits)

lemma getNextAvailableMessage_Inl:
  "getNextAvailableMessage fuel defs buf offset = Inl e \<Longrightarrow> e = OutOfFuel"
  by (auto simp: getNextAvailableMessage_def split: sum.splits if_splits
      dest: catchUndefined_Inl)

lemma getNextAvailableMessage_outcomes:
  "getNextAvailableMessage fuel defs buf offset
   \<in> {Inl OutOfFuel, Inr None} \<union> range (\<lambda>w. Inr (Some w))"
proof (cases "getNextAvailableMessage fuel defs buf offset")
  case (Inl e)
  with getNextAvailableMessage_Inl [OF Inl] show ?thesis by simp
next
  case (Inr x)
  then show ?thesis by (cases x) simp_all
qed

section \<open>The round trip of messages\<close>

text \<open>
  C2.  As the claim states it: for every message \<open>M\<close> of the message types, the RPC
  definitions that RPC_EXECUTE and RPC_RESPONSE refer to being present in the definitions map,
  and every well-typed value payload, decoding at offset 0 the buffer that the encoder of
  \<open>M\<close> produced yields a message equal to \<open>M\<close> and a new offset equal to the length of the
  buffer.  The code does not: the encoder of CLIENT_HELLO writes the version 3.0 whatever the
  message holds, and the decoders of RPC_EXECUTE and RPC_RESPONSE take the type and the name of
  each value from the definition, not from the bytes.
\<close>

theorem message_roundtrip_counterexample:
  "messageToBuffer (V3ClientHelloMessage 2 0 []) = Inr [0x01, 3, 0, 0]
   \<and> getNextAvailableMessage 0 Map.empty [0x01, 3, 0, 0] 0
     = Inr (Some (V3ClientHelloMessage 3 0 [], 4))
   \<and> V3ClientHelloMessage 3 0 [] \<noteq> V3ClientHelloMessage 2 0 []
   \<and> messageToBuffer (V3RPCExecuteMessage 7 1
         [V3RPCParameter BOOLEAN [0x78]
            (NTEntryValue (Some True) None None None None None None None)])
     = Inr [0x20, 0, 7, 0, 1, 1, 1]
   \<and> getNextAvailableMessage 0
         [(7::nat) \<mapsto> V3RPCDefinition [0x66]
            [V3RPCParameter BOOLEAN [0x61]
               (NTEntryValue (Some False) None None None None None None None)] []]
         [0x20, 0, 7, 0, 1, 1, 1] 0
     = Inr (Some (V3RPCExecuteMessage 7 1
         [V3RPCParameter BOOLEAN [0x61]
            (NTEntryValue (Some True) None None None None None None None)], 7))"
proof -
  have A: "messageToBuffer (V3ClientHelloMessage 2 0 []) = Inr [0x01, 3, 0, 0]"
    by code_simp
  have B: "getNextAvailableMessage 0 Map.empty [0x01, 3, 0, 0] 0
     = Inr (Some (V3ClientHelloMessage 3 0 [], 4))"
    by code_simp
  have C: "V3ClientHelloMessage 3 0 [] \<noteq> V3ClientHelloMessage 2 0 []"
    by simp
  have D: "messageToBuffer (V3RPCExecuteMessage 7 1
         [V3RPCParameter BOOLEAN [0x78]
            (NTEntryValue (Some True) None None None None None None None)])
     = Inr [0x20, 0, 7, 0, 1, 1, 1]"
    by (simp add: rpcExecuteMessageToBuffer_def writeUInt16BE_def entryValueToBuffer_BOOLEAN
        toUnsignedLEB128_small RPC_EXECUTE_def)
  have E: "getNextAvailableMessage 0
         [(7::nat) \<mapsto> V3RPCDefinition [0x66]
            [V3RPCParameter BOOLEAN [0x61]
               (NTEntryValue (Some False) None None None None None None None)] []]
         [0x20, 0, 7, 0, 1, 1, 1] 0
     = Inr (Some (V3RPCExecuteMessage 7 1
         [V3RPCParameter BOOLEAN [0x61]
            (NTEntryValue (Some True) None None None None None None None)], 7))"
    by code_simp
  show ?thesis by (intro conjI A B C D E)
qed

text \<open>
  C2, as amended.  For every message that \<open>roundtripMessage\<close> admits (a CLIENT_HELLO of
  version 3.0; version numbers below 256; values that set exactly the field of their type,
  with arrays of at most 255 elements and RPC definitions that serialize to fewer than 128
  bytes and have result specs of empty value; for RPC_EXECUTE and RPC_RESPONSE a definition
  stored under the id of the message whose specs have the types and names of the values of
  the message), whenever the encoder of the message returns a buffer, decoding that buffer at
  offset 0, with a recursion depth of at least the nesting depth of the message, yields a
  message equal to \<open>M\<close> and a new offset equal to the length of the buffer.
\<close>

theorem message_roundtrip:
  "roundtripMessage rpcDefinitions M \<Longrightarrow> messageDepth M \<le> fuel \<Longrightarrow>
   messageToBuffer M = Inr bs \<Longrightarrow>
   getNextAvailableMessage fuel rpcDefinitions bs 0 = Inr (Some (M, length bs))"
  by (rule message_decoded)

theorem message_roundtrip_witness:
  "roundtripMessage Map.empty
     (V3EntryAssignmentMessage [0x61, 0x62, 0x63] RPC 42 1 \<lparr>persistent = True\<rparr>
        (NTEntryValue None None None None None None None
           (Some (V3RPCDefinition [0x66]
              [V3RPCParameter STRING [0x61]
                 (NTEntryValue None None (Some [0x78]) None None None None None)]
              [V3RPCResult BOOLEAN [0x72] emptyValue]))))
   \<and> messageDepth
     (V3EntryAssignmentMessage [0x61, 0x62, 0x63] RPC 42 1 \<lparr>persistent = True\<rparr>
        (NTEntryValue None None None None None None None
           (Some (V3RPCDefinition [0x66]
              [V3RPCParameter STRING [0x61]
                 (NTEntryValue None None (Some [0x78]) None None None None None)]
              [V3RPCResult BOOLEAN [0x72] emptyValue])))) \<le> 1
   \<and> messageToBuffer
     (V3EntryAssignmentMessage [0x61, 0x62, 0x63] RPC 42 1 \<lparr>persistent = True\<rparr>
        (NTEntryValue None None None None None None None
           (Some (V3RPCDefinition [0x66]
              [V3RPCParameter STRING [0x61]
                 (NTEntryValue None None (Some [0x78]) None None None None None)]
              [V3RPCResult BOOLEAN [0x72] emptyValue]))))
     = Inr [0x10, 3, 0x61, 0x62, 0x63, 0x20, 0, 42, 0, 1, 1,
            13, 1, 1, 0x66, 1, 2, 1, 0x61, 1, 0x78, 1, 0, 1, 0x72]
   \<and> getNextAvailableMessage 1 Map.empty
       [0x10, 3, 0x61, 0x62, 0x63, 0x20, 0, 42, 0, 1, 1,
        13, 1, 1, 0x66, 1, 2, 1, 0x61, 1, 0x78, 1, 0, 1, 0x72] 0
     = Inr (Some
        (V3EntryAssignmentMessage [0x61, 0x62, 0x63] RPC 42 1 \<lparr>persistent = True\<rparr>
           (NTEntryValue None None None None None None None
              (Some (V3RPCDefinition [0x66]
                 [V3RPCParameter STRING [0x61]
                    (NTEntryValue None None (Some [0x78]) None None None None None)]
                 [V3RPCResult BOOLEAN [0x72] emptyValue]))), 25))"
proof -
  let ?M = "V3EntryAssignmentMessage [0x61, 0x62, 0x63] RPC 42 1 \<lparr>persistent = True\<rparr>
        (NTEntryValue None None None None None None None
           (Some (V3RPCDefinition [0x66]
              [V3RPCParameter STRING [0x61]
                 (NTEntryValue None None (Some [0x78]) None None None None None)]
              [V3RPCResult BOOLEAN [0x72] emptyValue])))"
  let ?bs = "[0x10, 3, 0x61, 0x62, 0x63, 0x20, 0, 42, 0, 1, 1,
            13, 1, 1, 0x66, 1, 2, 1, 0x61, 1, 0x78, 1, 0, 1, 0x72] :: Buffer"
  have h1: "roundtripMessage Map.empty ?M"
    by code_simp
  have h2: "messageDepth ?M \<le> 1"
    by code_simp
  have d: "encodeRPCDefinition (V3RPCDefinition [0x66]
              [V3RPCParameter STRING [0x61]
                 (NTEntryValue None None (Some [0x78]) None None None None None)]
              [V3RPCResult BOOLEAN [0x72] emptyValue])
           = Inr [1, 1, 0x66, 1, 2, 1, 0x61, 1, 0x78, 1, 0, 1, 0x72]"
    by code_simp
  have h3: "messageToBuffer ?M = Inr ?bs"
    by (simp add: entryAssignmentMessageToBuffer_def checkEntryValue_def writeUInt16BE_def
        entryValueToBuffer_RPC d byteOfNumber_def encodeLEB128String_def
        toUnsignedLEB128_small ENTRY_ASSIGNMENT_def entryFlagsToUInt8_def)
       (simp add: RPC_def)
  have l: "length ?bs = 25"
    by simp
  note R = message_roundtrip [OF h1 h2 h3]
  show ?thesis
    by (intro conjI h1 h2 h3 R [unfolded l])
qed

section \<open>The outcomes of the top-level decoder\<close>

text \<open>
  C1.  As the claim states it: \<open>getNextAvailableMessage\<close>, given a buffer and an offset,
  returns one of three outcomes that can be told apart: a parsed message with the new offset,
  NeedMore when the buffer ends in the middle of a message, Invalid with a reason when the
  bytes are there but malformed.  The code returns \<open>undefined\<close> in both of the last two cases:
  for the first two bytes of an ENTRY_DELETE, for a complete CLEAR_ALL_ENTRIES with a wrong
  magic and for an unknown type byte alike.
\<close>

theorem next_message_outcomes_counterexample:
  "getNextAvailableMessage 0 Map.empty [0x13, 0x00] 0 = Inr None
   \<and> getNextAvailableMessage 0 Map.empty [0x14, 0x00, 0x00, 0x00, 0x00] 0 = Inr None
   \<and> getNextAvailableMessage 0 Map.empty [0xFF] 0 = Inr None
   \<and> entryDeleteMessageFromBuffer [0x13, 0x00] 0 = Inl InvalidBufferLengthError
   \<and> clearAllEntriesMessageFromBuffer [0x14, 0x00, 0x00, 0x00, 0x00] 0
     = Inl (InvalidEntryValueError ''Invalid Magic number for CLEAR ALL ENTRIES'')"
proof -
  have A: "getNextAvailableMessage 0 Map.empty [0x13, 0x00] 0 = Inr None"
    by code_simp
  have E: "clearAllEntriesMessageFromBuffer [0x14, 0x00, 0x00, 0x00, 0x00] 0
     = Inl (InvalidEntryValueError ''Invalid Magic number for CLEAR ALL ENTRIES'')"
    by (simp add: clearAllEntriesMessageFromBuffer_def checkBufferLength_def
        checkMessageType_def byteAt_def readUInt32BE_def CLEAR_ALL_ENTRIES_def
        CLEAR_ALL_ENTRIES_MAGIC_VALUE_def)
  have "byteAt [0x14, 0x00, 0x00, 0x00, 0x00] 0 = Some CLEAR_ALL_ENTRIES"
    by (simp add: byteAt_def CLEAR_ALL_ENTRIES_def)
  then have B: "getNextAvailableMessage 0 Map.empty [0x14, 0x00, 0x00, 0x00, 0x00] 0 = Inr None"
    by (simp add: dispatch_CLEAR_ALL_ENTRIES E catchUndefined_def)
  have C: "getNextAvailableMessage 0 Map.empty [0xFF] 0 = Inr None"
    by code_simp
  have D: "entryDeleteMessageFromBuffer [0x13, 0x00] 0 = Inl InvalidBufferLengthError"
    by code_simp
  show ?thesis by (intro conjI A B C D E)
qed

text \<open>
  C1, as amended.  \<open>getNextAvailableMessage\<close>, given a buffer and an offset, returns one of
  two outcomes: a parsed message with the new offset, or \<open>undefined\<close>, the latter both when
  the buffer ends in the middle of a message and when the bytes are malformed; no exception
  leaves it.  For every buffer of length \<open>L\<close> that the encoders produce from a message that
  \<open>roundtripMessage\<close> admits, feeding any strict prefix of length \<open>k < L\<close> yields
  \<open>undefined\<close>, and feeding exactly the \<open>L\<close> bytes yields a parsed message with the new
  offset \<open>L\<close> (the recursion depth given being at least the nesting depth of the message).
\<close>

theorem next_message_parsed_or_undefined:
  "roundtripMessage rpcDefinitions M \<Longrightarrow> messageDepth M \<le> fuel \<Longrightarrow>
   messageToBuffer M = Inr bs \<Longrightarrow>
   getNextAvailableMessage fuel rpcDefinitions buf offset
     \<in> {Inl OutOfFuel, Inr None} \<union> range (\<lambda>w. Inr (Some w))
   \<and> (\<forall>k < length bs. getNextAvailableMessage fuel rpcDefinitions (take k bs) 0 = Inr None)
   \<and> (\<exists>m. getNextAvailableMessage fuel rpcDefinitions bs 0 = Inr (Some (m, length bs)))"
proof -
  assume wf: "roundtripMessage rpcDefinitions M" and dep: "messageDepth M \<le> fuel"
    and enc: "messageToBuffer M = Inr bs"
  have "getNextAvailableMessage fuel rpcDefinitions (take k bs) 0 = Inr None"
    if "k < length bs" for k
  proof -
    from that have "strict_prefix (take k bs) bs"
      by (simp add: strict_prefix_def take_is_prefix)
    with wf dep enc show ?thesis by (rule message_truncated)
  qed
  moreover have "\<exists>m. getNextAvailableMessage fuel rpcDefinitions bs 0 = Inr (Some (m, length bs))"
    using message_decoded [OF wf dep enc] by blast
  ultimately show ?thesis
    using getNextAvailableMessage_outcomes [of fuel rpcDefinitions buf offset] by blast
qed

theorem next_message_parsed_or_undefined_witness:
  "roundtripMessage Map.empty
     (V3EntryAssignmentMessage [0x61, 0x62, 0x63] BOOLEAN 42 1 \<lparr>persistent = False\<rparr>
        (NTEntryValue (Some True) None None None None None None None))
   \<and> messageDepth
     (V3EntryAssignmentMessage [0x61, 0x62, 0x63] BOOLEAN 42 1 \<lparr>persistent = False\<rparr>
        (NTEntryValue (Some True) None None None None None None None)) \<le> 0
   \<and> messageToBuffer
     (V3EntryAssignmentMessage [0x61, 0x62, 0x63] BOOLEAN 42 1 \<lparr>persistent = False\<rparr>
        (NTEntryValue (Some True) None None None None None None None))
     = Inr [0x10, 0x03, 0x61, 0x62, 0x63, 0x00, 0x00, 0x2A, 0x00, 0x01, 0x00, 0x01]
   \<and> getNextAvailableMessage 0 Map.empty
       [0x10, 0x03, 0x61, 0x62, 0x63, 0x00, 0x00, 0x2A, 0x00, 0x01, 0x00] 0 = Inr None
   \<and> (\<exists>m. getNextAvailableMessage 0 Map.empty
       [0x10, 0x03, 0x61, 0x62, 0x63, 0x00, 0x00, 0x2A, 0x00, 0x01, 0x00, 0x01] 0
       = Inr (Some (m, 12)))"
proof -
  let ?M = "V3EntryAssignmentMessage [0x61, 0x62, 0x63] BOOLEAN 42 1 \<lparr>persistent = False\<rparr>
        (NTEntryValue (Some True) None None None None None None None)"
  let ?bs = "[0x10, 0x03, 0x61, 0x62, 0x63, 0x00, 0x00, 0x2A, 0x00, 0x01, 0x00, 0x01] :: Buffer"
  have h1: "roundtripMessage Map.empty ?M"
    by code_simp
  have h2: "messageDepth ?M \<le> 0"
    by code_simp
  have h3: "messageToBuffer ?M = Inr ?bs"
    by (simp add: entryAssignmentMessageToBuffer_def checkEntryValue_def writeUInt16BE_def
        entryValueToBuffer_BOOLEAN encodeLEB128String_def toUnsignedLEB128_small
        ENTRY_ASSIGNMENT_def entryFlagsToUInt8_def)
       (simp add: BOOLEAN_def)
  note T = next_message_parsed_or_undefined [OF h1 h2 h3, of "[]" 0]
  have k: "(11::nat) < length ?bs"
    by simp
  have tk: "take 11 ?bs = [0x10, 0x03, 0x61, 0x62, 0x63, 0x00, 0x00, 0x2A, 0x00, 0x01, 0x00]"
    by code_simp
  from T have "getNextAvailableMessage 0 Map.empty (take 11 ?bs) 0 = Inr None"
    using k by blast
  then have a: "getNextAvailableMessage 0 Map.empty
       [0x10, 0x03, 0x61, 0x62, 0x63, 0x00, 0x00, 0x2A, 0x00, 0x01, 0x00] 0 = Inr None"
    unfolding tk .
  from T have b: "\<exists>m. getNextAvailableMessage 0 Map.empty ?bs 0 = Inr (Some (m, length ?bs))"
    by blast
  have l: "length ?bs = 12"
    by simp
  show ?thesis
    by (intro conjI h1 h2 h3 a b [unfolded l])
qed

end
